theory Spec2Isabelle
  imports Complex_Main "HOL-Library.Sublist"
begin

section \<open>Python values and string primitives\<close>

text \<open>
  Python strings are modelled as \<^typ>\<open>string\<close>: a character is a code point below 256.
  On these \<open>str.lower\<close> changes the letters \<open>A\<close> to \<open>Z\<close> and the capital letters of
  the Latin-1 range (192 to 214 and 216 to 222), each to the code point 32 above it, and
  \<open>str.isspace\<close> holds of 9 to 13, 28 to 32, 133 and 160. The substring test
  \<open>p in s\<close> is \<^const>\<open>sublist\<close>, \<open>s.startswith(p)\<close> is \<^const>\<open>prefix\<close> and
  \<open>s.endswith(p)\<close> is \<^const>\<open>suffix\<close>.

  The values that reach the functions below (arguments, and the contents of a decoded JSON
  cache file) are modelled by \<open>py_value\<close>; JSON numbers are restricted to integers.
\<close>

datatype py_value =
    PyNone
  | PyBool bool
  | PyInt int
  | PyStr string
  | PyList "py_value list"
  | PyDict "(string \<times> py_value) list"

datatype error =
  OSError | JSONDecodeError | TypeError | AttributeError | ValueError | UnicodeEncodeError

fun truthy :: "py_value \<Rightarrow> bool" where
  "truthy PyNone = False"
| "truthy (PyBool b) = b"
| "truthy (PyInt n) = (n \<noteq> 0)"
| "truthy (PyStr s) = (s \<noteq> [])"
| "truthy (PyList xs) = (xs \<noteq> [])"
| "truthy (PyDict kvs) = (kvs \<noteq> [])"

fun isinstance_str :: "py_value \<Rightarrow> bool" where
  "isinstance_str (PyStr s) = True"
| "isinstance_str v = False"

definition lower_char :: "char \<Rightarrow> char" where
  "lower_char c =
     (case map_of (zip ''ABCDEFGHIJKLMNOPQRSTUVWXYZ'' ''abcdefghijklmnopqrstuvwxyz'') c of
        Some d \<Rightarrow> d
      | None \<Rightarrow>
          (let n = (of_char c :: nat) in
           if (192 \<le> n \<and> n \<le> 214) \<or> (216 \<le> n \<and> n \<le> 222) then char_of (n + 32) else c))"

definition lower :: "string \<Rightarrow> string" where
  "lower s = map lower_char s"

text \<open>
  \<open>re.sub(pattern, replacement, s)\<close> for a pattern without regular-expression
  metacharacters and a replacement without escapes, which is all the source uses: the
  occurrences of the pattern are found from left to right, each search resuming after the
  end of the previous match, and each is replaced. (An empty pattern matches before every
  character and at the end.)
\<close>

fun re_sub :: "string \<Rightarrow> string \<Rightarrow> string \<Rightarrow> string" where
  "re_sub pat rep [] = (if pat = [] then rep else [])"
| "re_sub pat rep (c # cs) =
     (if pat = [] then rep @ c # re_sub pat rep cs
      else if prefix pat (c # cs) then rep @ re_sub pat rep (drop (length pat - 1) cs)
      else c # re_sub pat rep cs)"

section \<open>URL normaliser: \<open>PinterestScraper.convert_to_original_url\<close>\<close>

definition patterns :: "(string \<times> string) list" where
  "patterns =
     [(''/236x/'', ''/originals/''),
      (''/474x/'', ''/originals/''),
      (''/564x/'', ''/originals/''),
      (''/736x/'', ''/originals/''),
      (''/originals/'', ''/originals/'')]"

definition convert_to_original_url :: "string \<Rightarrow> string" where
  "convert_to_original_url url =
     (if url = [] \<or> \<not> sublist ''pinimg.com'' url then url
      else foldl (\<lambda>url (pattern, replacement). re_sub pattern replacement url) url patterns)"

subsection \<open>Conditions on a pattern and its replacement\<close>

text \<open>
  Proof vocabulary for the substitution, not part of the program: conditions on literal
  strings under which writing the replacement in place of the pattern cannot complete a new
  occurrence of a string \<open>q\<close>. \<open>starts_only_as t pat rep\<close>: a non-empty end of \<open>t\<close>
  that agrees with the replacement as far as both go is a beginning of the pattern.
  \<open>overlaps_only_as q pat rep\<close>: a beginning of \<open>q\<close> that ends the replacement also ends
  the pattern. \<open>overlaps_itself_once pat rep\<close>: the only proper non-empty beginning of the
  pattern that ends the replacement is its first character.
\<close>

definition comparable :: "string \<Rightarrow> string \<Rightarrow> bool" where
  "comparable xs ys = (prefix xs ys \<or> prefix ys xs)"

definition starts_only_as :: "string \<Rightarrow> string \<Rightarrow> string \<Rightarrow> bool" where
  "starts_only_as t pat rep =
     list_all (\<lambda>t2. t2 = [] \<or> \<not> comparable t2 rep \<or> prefix t2 pat) (suffixes t)"

definition overlaps_only_as :: "string \<Rightarrow> string \<Rightarrow> string \<Rightarrow> bool" where
  "overlaps_only_as q pat rep =
     list_all (\<lambda>q1. \<not> suffix q1 rep \<or> suffix q1 pat) (prefixes q)"

definition overlaps_itself_once :: "string \<Rightarrow> string \<Rightarrow> bool" where
  "overlaps_itself_once pat rep =
     list_all (\<lambda>q1. q1 = [] \<or> q1 = pat \<or> \<not> suffix q1 rep \<or> q1 = take 1 pat) (prefixes pat)"

section \<open>URL classifier: the type analysis of \<open>analyze_cache\<close>\<close>

datatype url_type = Original | Thumbnail | Unknown

definition thumbnail_sizes :: "string list" where
  "thumbnail_sizes = [''/236x/'', ''/474x/'', ''/564x/'', ''/736x/'']"

definition classify_type :: "string \<Rightarrow> url_type" where
  "classify_type url =
     (if sublist ''/originals/'' url then Original
      else if list_ex (\<lambda>size. sublist size url) thumbnail_sizes then Thumbnail
      else Unknown)"

section \<open>\<open>urllib.parse.urlparse(url).path\<close>\<close>

text \<open>
  The path component as CPython's \<open>urlsplit\<close> and \<open>urlparse\<close> compute it: leading
  control characters and spaces are stripped, tab, carriage return and line feed are removed,
  a scheme is split off at the first colon when everything before it is a scheme character
  and the first character is a letter, a network location is split off after \<open>//\<close> up to
  the next \<open>/\<close>, \<open>?\<close> or \<open>#\<close>, the fragment and the query are cut off, and for the
  schemes that take parameters the parameters of the last path segment are cut off.
  A network location with an unmatched square bracket raises \<open>ValueError\<close>, and so does
  one whose bracketed host is neither an IPvFuture literal nor an IPv6 address
  (\<open>_check_bracketed_host\<close>, with the address syntax of \<open>ipaddress.ip_address\<close>). The last
  check of \<open>urlsplit\<close>, \<open>_checknetloc\<close>, raises only when the compatibility normalisation
  of a non-ASCII network location produces one of \<open>/?#@:\<close>, which no code point below 256
  does, so it has no branch here.
\<close>

text \<open>\<open>s.split(sep)\<close> for a separator of one character.\<close>

fun split_on :: "char \<Rightarrow> string \<Rightarrow> string list" where
  "split_on sep [] = [[]]"
| "split_on sep (c # cs) =
     (if c = sep then [] # split_on sep cs
      else (case split_on sep cs of [] \<Rightarrow> [[c]] | p # ps \<Rightarrow> (c # p) # ps))"

definition decimal_digits :: "char list" where
  "decimal_digits = ''0123456789''"

definition hex_digits :: "char list" where
  "hex_digits = ''0123456789ABCDEFabcdef''"

text \<open>\<open>IPv4Address._parse_octet\<close> and \<open>IPv4Address(s)\<close>: whether the string is accepted.\<close>

definition decimal_value :: "string \<Rightarrow> nat" where
  "decimal_value ds = foldl (\<lambda>n c. 10 * n + (of_char c - 48)) 0 ds"

definition parse_octet_ok :: "string \<Rightarrow> bool" where
  "parse_octet_ok octet_str =
     (octet_str \<noteq> []
      \<and> list_all (\<lambda>c. c \<in> set decimal_digits) octet_str
      \<and> length octet_str \<le> 3
      \<and> \<not> (octet_str \<noteq> ''0'' \<and> hd octet_str = CHR ''0'')
      \<and> decimal_value octet_str \<le> 255)"

definition ipv4_address_ok :: "string \<Rightarrow> bool" where
  "ipv4_address_ok addr_str =
     (CHR ''/'' \<notin> set addr_str \<and> addr_str \<noteq> []
      \<and> (let octets = split_on CHR ''.'' addr_str
          in length octets = 4 \<and> list_all parse_octet_ok octets))"

text \<open>
  \<open>IPv6Address(s)\<close>: the scope id is split off at the first \<open>%\<close>, then
  \<open>_ip_int_from_string\<close> checks the parts between the colons. An IPv4 suffix is replaced
  by the two hextets it stands for, which are non-empty and valid whatever the address is.
\<close>

definition parse_hextet_ok :: "string \<Rightarrow> bool" where
  "parse_hextet_ok hextet_str =
     (list_all (\<lambda>c. c \<in> set hex_digits) hextet_str \<and> length hextet_str \<le> 4
      \<and> hextet_str \<noteq> [])"

definition split_scope_id :: "string \<Rightarrow> string option" where
  "split_scope_id ip_str =
     (if CHR ''%'' \<notin> set ip_str then Some ip_str
      else
        (let addr = takeWhile (\<lambda>c. c \<noteq> CHR ''%'') ip_str;
             scope_id = tl (dropWhile (\<lambda>c. c \<noteq> CHR ''%'') ip_str)
         in if scope_id = [] \<or> CHR ''%'' \<in> set scope_id then None else Some addr))"

definition hextets_ok :: "string list \<Rightarrow> bool" where
  "hextets_ok parts =
     (length parts \<le> 9
      \<and> (let skips = filter (\<lambda>i. parts ! i = []) [1..<length parts - 1] in
           case skips of
             [] \<Rightarrow>
               length parts = 8 \<and> hd parts \<noteq> [] \<and> last parts \<noteq> []
               \<and> list_all parse_hextet_ok parts
           | [skip_index] \<Rightarrow>
               (let parts_hi = (if hd parts = [] then skip_index - 1 else skip_index);
                    parts_lo = (if last parts = [] then length parts - skip_index - 2
                                else length parts - skip_index - 1)
                in (if hd parts = [] then parts_hi = 0 else True)
                   \<and> (if last parts = [] then parts_lo = 0 else True)
                   \<and> parts_hi + parts_lo < 8
                   \<and> list_all parse_hextet_ok (take parts_hi parts)
                   \<and> list_all parse_hextet_ok (drop (length parts - parts_lo) parts))
           | _ \<Rightarrow> False))"

definition ipv6_int_ok :: "string \<Rightarrow> bool" where
  "ipv6_int_ok ip_str =
     (ip_str \<noteq> []
      \<and> (let parts = split_on CHR '':'' ip_str in
           length parts \<ge> 3
           \<and> (if CHR ''.'' \<in> set (last parts)
                then ipv4_address_ok (last parts) \<and> hextets_ok (butlast parts @ [''0'', ''0''])
                else hextets_ok parts)))"

definition ipv6_address_ok :: "string \<Rightarrow> bool" where
  "ipv6_address_ok addr_str =
     (CHR ''/'' \<notin> set addr_str
      \<and> (case split_scope_id addr_str of None \<Rightarrow> False | Some addr \<Rightarrow> ipv6_int_ok addr))"

text \<open>
  \<open>_check_bracketed_host\<close>: a host that starts with \<open>v\<close> must go on with one or more
  hexadecimal digits, a dot and at least one more character; any other host must be accepted
  by \<open>ipaddress.ip_address\<close> as an IPv6 address (an IPv4 address in brackets is refused).
\<close>

definition ipvfuture_ok :: "string \<Rightarrow> bool" where
  "ipvfuture_ok hostname =
     (let digits = takeWhile (\<lambda>c. c \<in> set hex_digits) (tl hostname);
          rest = dropWhile (\<lambda>c. c \<in> set hex_digits) (tl hostname)
      in digits \<noteq> [] \<and> prefix ''.'' rest \<and> length rest \<ge> 2)"

definition check_bracketed_host :: "string \<Rightarrow> bool" where
  "check_bracketed_host hostname =
     (if prefix ''v'' hostname then ipvfuture_ok hostname
      else \<not> ipv4_address_ok hostname \<and> ipv6_address_ok hostname)"

definition bracketed_host :: "string \<Rightarrow> string" where
  "bracketed_host netloc =
     takeWhile (\<lambda>c. c \<noteq> CHR '']'') (tl (dropWhile (\<lambda>c. c \<noteq> CHR ''['') netloc))"

definition scheme_chars :: "char list" where
  "scheme_chars =
     ''abcdefghijklmnopqrstuvwxyzABCDEFGHIJKLMNOPQRSTUVWXYZ0123456789+-.''"

definition ascii_letters :: "char list" where
  "ascii_letters = ''abcdefghijklmnopqrstuvwxyzABCDEFGHIJKLMNOPQRSTUVWXYZ''"

definition uses_params :: "string list" where
  "uses_params =
     ['''', ''ftp'', ''hdl'', ''prospero'', ''http'', ''imap'', ''https'', ''shttp'',
      ''rtsp'', ''rtsps'', ''rtspu'', ''sip'', ''sips'', ''mms'', ''sftp'', ''tel'']"

definition c0_control_or_space :: "char \<Rightarrow> bool" where
  "c0_control_or_space c = ((of_char c :: nat) \<le> 32)"

definition unsafe_url_byte :: "char \<Rightarrow> bool" where
  "unsafe_url_byte c = ((of_char c :: nat) \<in> {9, 10, 13})"

definition split_scheme :: "string \<Rightarrow> string \<times> string" where
  "split_scheme url =
     (let pre = takeWhile (\<lambda>c. c \<noteq> CHR '':'') url in
      if CHR '':'' \<in> set url \<and> pre \<noteq> [] \<and> hd pre \<in> set ascii_letters
         \<and> list_all (\<lambda>c. c \<in> set scheme_chars) pre
      then (lower pre, drop (length pre + 1) url)
      else ('''', url))"

definition splitnetloc :: "string \<Rightarrow> string \<times> string" where
  "splitnetloc url =
     (if take 2 url = ''//''
      then (takeWhile (\<lambda>c. c \<notin> set ''/?#'') (drop 2 url),
            dropWhile (\<lambda>c. c \<notin> set ''/?#'') (drop 2 url))
      else ('''', url))"

definition splitparams :: "string \<Rightarrow> string" where
  "splitparams url =
     (let last_segment = rev (takeWhile (\<lambda>c. c \<noteq> CHR ''/'') (rev url)) in
      take (length url - length last_segment) url
        @ takeWhile (\<lambda>c. c \<noteq> CHR '';'') last_segment)"

definition urlparse_path :: "string \<Rightarrow> error + string" where
  "urlparse_path url0 =
     (let url1 = filter (\<lambda>c. \<not> unsafe_url_byte c) (dropWhile c0_control_or_space url0);
          (scheme, url2) = split_scheme url1;
          (netloc, url3) = splitnetloc url2
      in if (CHR ''['' \<in> set netloc) \<noteq> (CHR '']'' \<in> set netloc) then Inl ValueError
         else if CHR ''['' \<in> set netloc \<and> CHR '']'' \<in> set netloc
                 \<and> \<not> check_bracketed_host (bracketed_host netloc) then Inl ValueError
         else
           (let url4 = takeWhile (\<lambda>c. c \<noteq> CHR ''#'') url3;
                url5 = takeWhile (\<lambda>c. c \<noteq> CHR ''?'') url4
            in Inr (if scheme \<in> set uses_params \<and> CHR '';'' \<in> set url5
                    then splitparams url5 else url5)))"

section \<open>URL validity: \<open>PinterestScraper.is_valid_image_url\<close>\<close>

definition invalid_patterns :: "string list" where
  "invalid_patterns = [''blob:'', ''data:'', ''video-thumbnails'', ''storypin'', ''.gif'']"

definition valid_extensions :: "string list" where
  "valid_extensions = [''.jpg'', ''.jpeg'', ''.png'', ''.webp'']"

definition is_valid_str :: "string \<Rightarrow> error + bool" where
  "is_valid_str url =
     (if list_ex (\<lambda>pattern. sublist pattern (lower url)) invalid_patterns then Inr False
      else if \<not> sublist ''pinimg.com'' url then Inr False
      else
        (case urlparse_path url of
           Inl e \<Rightarrow> Inl e
         | Inr path \<Rightarrow>
             (let url_path = lower path in
              if \<not> list_ex (\<lambda>ext. suffix ext url_path) valid_extensions then Inr False
              else Inr True)))"

fun is_valid_image_url :: "py_value \<Rightarrow> error + bool" where
  "is_valid_image_url (PyStr url) = (if url = [] then Inr False else is_valid_str url)"
| "is_valid_image_url v = Inr False"

section \<open>Scrape-time extraction and deduplication: \<open>PinterestScraper.scrape_search\<close>\<close>

text \<open>
  The browser session is an external collaborator. What \<open>extract_pins_from_page\<close> reads
  from one pin element is given as a \<open>raw_pin\<close>: the image source after the \<open>src\<close> and
  \<open>srcset\<close> lookups (\<open>None\<close> when the element has no image or no source), the inner text of
  the title element (\<open>None\<close> when there is none) and the resolved pin link.
\<close>

record raw_pin =
  raw_img_src :: "string option"
  raw_title :: "string option"
  raw_pin_url :: string

record pin =
  pin_title :: string
  pin_url :: string
  pin_media :: string
  pin_quality :: string

definition py_isspace :: "char \<Rightarrow> bool" where
  "py_isspace c = ((of_char c :: nat) \<in> {9, 10, 11, 12, 13, 28, 29, 30, 31, 32, 133, 160})"

definition strip :: "string \<Rightarrow> string" where
  "strip s = rev (dropWhile py_isspace (rev (dropWhile py_isspace s)))"

definition make_pin :: "raw_pin \<Rightarrow> string \<Rightarrow> pin" where
  "make_pin r original_url =
     \<lparr>pin_title =
        (case raw_title r of
           None \<Rightarrow> ''Aesthetic Pin''
         | Some t \<Rightarrow> if t \<noteq> [] then strip t else ''Aesthetic Pin''),
      pin_url = raw_pin_url r,
      pin_media = original_url,
      pin_quality = ''hd-original''\<rparr>"

text \<open>
  The loop over the pin elements. An exception raised while one element is handled
  (here: \<open>ValueError\<close> from \<open>urlparse\<close>) is caught and the element is skipped.
\<close>

fun extract_pins :: "raw_pin list \<Rightarrow> pin list" where
  "extract_pins [] = []"
| "extract_pins (r # rs) =
     (case raw_img_src r of
        None \<Rightarrow> extract_pins rs
      | Some img_src \<Rightarrow>
          if img_src = [] then extract_pins rs
          else
            (let original_url = convert_to_original_url img_src in
             case is_valid_image_url (PyStr original_url) of
               Inr True \<Rightarrow> make_pin r original_url # extract_pins rs
             | Inr False \<Rightarrow> extract_pins rs
             | Inl e \<Rightarrow> extract_pins rs))"

text \<open>
  The duplicate-removal loop of \<open>scrape_search\<close>: \<open>seen_urls\<close> and \<open>unique_pins\<close> are the
  loop's two accumulators, and the \<open>break\<close> is tested right after an append.
\<close>

fun unique_pins_loop :: "int \<Rightarrow> pin list \<Rightarrow> string set \<Rightarrow> pin list \<Rightarrow> pin list" where
  "unique_pins_loop max_pins [] seen_urls unique_pins = unique_pins"
| "unique_pins_loop max_pins (p # pins) seen_urls unique_pins =
     (if pin_media p \<notin> seen_urls
      then
        (if int (length (unique_pins @ [p])) \<ge> max_pins then unique_pins @ [p]
         else unique_pins_loop max_pins pins (insert (pin_media p) seen_urls) (unique_pins @ [p]))
      else unique_pins_loop max_pins pins seen_urls unique_pins)"

definition dedupe_pins :: "int \<Rightarrow> pin list \<Rightarrow> pin list" where
  "dedupe_pins max_pins pins = unique_pins_loop max_pins pins {} []"

definition scrape_search :: "int \<Rightarrow> raw_pin list \<Rightarrow> pin list" where
  "scrape_search max_pins page = dedupe_pins max_pins (extract_pins page)"

text \<open>
  The specification's reading of deduplication, for comparison with the loop: the first
  occurrence of a key is kept and every later entry with that key is dropped.
\<close>

fun dedupe_spec :: "pin list \<Rightarrow> pin list" where
  "dedupe_spec [] = []"
| "dedupe_spec (p # ps) = p # dedupe_spec (filter (\<lambda>q. pin_media q \<noteq> pin_media p) ps)"

section \<open>Decoded cache files\<close>

text \<open>
  \<open>len(data)\<close>, \<open>for item in data\<close> and \<open>item.get(key)\<close> on a decoded JSON value:
  \<open>len\<close> and iteration raise \<open>TypeError\<close> on \<open>None\<close>, booleans and numbers, iteration
  over a string gives its characters and over a dict its keys, and only a dict has \<open>get\<close>.
\<close>

fun py_len :: "py_value \<Rightarrow> error + nat" where
  "py_len (PyStr s) = Inr (length s)"
| "py_len (PyList xs) = Inr (length xs)"
| "py_len (PyDict kvs) = Inr (length kvs)"
| "py_len v = Inl TypeError"

fun py_iter :: "py_value \<Rightarrow> error + py_value list" where
  "py_iter (PyStr s) = Inr (map (\<lambda>c. PyStr [c]) s)"
| "py_iter (PyList xs) = Inr xs"
| "py_iter (PyDict kvs) = Inr (map (\<lambda>kv. PyStr (fst kv)) kvs)"
| "py_iter v = Inl TypeError"

fun dict_get :: "py_value \<Rightarrow> string \<Rightarrow> error + py_value" where
  "dict_get (PyDict kvs) key = Inr (case map_of kvs key of None \<Rightarrow> PyNone | Some v \<Rightarrow> v)"
| "dict_get v key = Inl AttributeError"

text \<open>\<open>entry.get('media') or entry.get('url')\<close>\<close>

definition entry_url :: "py_value \<Rightarrow> error + py_value" where
  "entry_url entry =
     (case dict_get entry ''media'' of
        Inl e \<Rightarrow> Inl e
      | Inr m \<Rightarrow> if truthy m then Inr m else dict_get entry ''url'')"

section \<open>Maintenance deduplication: \<open>remove_duplicates\<close>\<close>

text \<open>
  Membership in \<open>seen_urls\<close> needs a hashable value (lists and dicts raise \<open>TypeError\<close>),
  and a boolean is the same set element as the integer it equals.
\<close>

fun hashable :: "py_value \<Rightarrow> bool" where
  "hashable (PyList xs) = False"
| "hashable (PyDict kvs) = False"
| "hashable v = True"

fun hash_key :: "py_value \<Rightarrow> py_value" where
  "hash_key (PyBool b) = PyInt (if b then 1 else 0)"
| "hash_key v = v"

fun unique_data_loop ::
  "py_value list \<Rightarrow> py_value set \<Rightarrow> py_value list \<Rightarrow> error + py_value list" where
  "unique_data_loop [] seen_urls unique_data = Inr unique_data"
| "unique_data_loop (item # items) seen_urls unique_data =
     (case entry_url item of
        Inl e \<Rightarrow> Inl e
      | Inr url \<Rightarrow>
          if truthy url then
            (if \<not> hashable url then Inl TypeError
             else if hash_key url \<notin> seen_urls
             then unique_data_loop items (insert (hash_key url) seen_urls) (unique_data @ [item])
             else unique_data_loop items seen_urls unique_data)
          else unique_data_loop items seen_urls unique_data)"

text \<open>The function on the decoded contents of the cache file (the backup file).\<close>

definition remove_duplicates :: "py_value \<Rightarrow> error + py_value list" where
  "remove_duplicates data =
     (case py_len data of
        Inl e \<Rightarrow> Inl e
      | Inr original_count \<Rightarrow>
          (case py_iter data of
             Inl e \<Rightarrow> Inl e
           | Inr items \<Rightarrow> unique_data_loop items {} []))"

section \<open>Validation engine: \<open>ImageValidator\<close>\<close>

text \<open>
  The remote side is a parameter: a session answers a \<open>HEAD\<close> and a \<open>GET\<close> request for
  a URL with a response (status code and \<open>Content-Type\<close> header, if any) or with a
  transport failure, the exception that \<open>aiohttp\<close> raises.
\<close>

datatype transport_failure = Timeout | ConnectionRefused | DNSFailure | MalformedResponse

datatype http_result = Response nat "string option" | Failed transport_failure

record session =
  head_request :: "string \<Rightarrow> http_result"
  get_request :: "string \<Rightarrow> http_result"

text \<open>\<open>response.headers.get('Content-Type', '').lower()\<close>\<close>

definition content_type :: "string option \<Rightarrow> string" where
  "content_type header = lower (case header of None \<Rightarrow> [] | Some v \<Rightarrow> v)"

text \<open>The body of the \<open>try\<close> block of \<open>check_url\<close>; \<open>Inl\<close> is an exception raised in it.\<close>

definition check_url_try :: "session \<Rightarrow> string \<Rightarrow> transport_failure + bool" where
  "check_url_try s url =
     (case head_request s url of
        Failed e \<Rightarrow> Inl e
      | Response status header \<Rightarrow>
          if status < 400 \<and> sublist ''image'' (content_type header) then Inr True
          else
            (case get_request s url of
               Failed e \<Rightarrow> Inl e
             | Response status' header' \<Rightarrow>
                 if status' < 400 then Inr (sublist ''image'' (content_type header'))
                 else Inr False))"

text \<open>
  \<open>check_url\<close> where the \<open>print\<close> of its handler succeeds: the exception of the \<open>try\<close>
  block is caught and the result is \<open>False\<close>. The function with the \<open>print\<close>, which can
  raise, is \<open>check_url_printing\<close> below; so for the functions that call it.
\<close>

definition check_url :: "session \<Rightarrow> py_value \<Rightarrow> bool" where
  "check_url s url =
     (if \<not> truthy url \<or> \<not> isinstance_str url then False
      else
        (case url of
           PyStr u \<Rightarrow> (case check_url_try s u of Inl e \<Rightarrow> False | Inr b \<Rightarrow> b)
         | _ \<Rightarrow> False))"

definition validate_entry :: "session \<Rightarrow> py_value \<Rightarrow> error + (py_value \<times> bool)" where
  "validate_entry s entry =
     (case entry_url entry of
        Inl e \<Rightarrow> Inl e
      | Inr url \<Rightarrow> Inr (entry, check_url s url))"

text \<open>
  What a run does to the session and to the event loop is recorded as a trace. The
  coroutines collected in \<open>tasks\<close> do not run before \<open>asyncio.gather\<close> receives them;
  \<open>gather\<close> starts the coroutines of its batch, returns when all of them are done, and
  gives their results in the order of its arguments. The first exception among them is
  raised from the \<open>await\<close>.
\<close>

datatype event =
    InitSession
  | CloseSession
  | GatherStart "py_value list"
  | GatherDone "py_value list"
  | Sleep rat

fun gather :: "session \<Rightarrow> py_value list \<Rightarrow> error + (py_value \<times> bool) list" where
  "gather s [] = Inr []"
| "gather s (entry # batch) =
     (case validate_entry s entry of
        Inl e \<Rightarrow> Inl e
      | Inr r \<Rightarrow> (case gather s batch of Inl e \<Rightarrow> Inl e | Inr rs \<Rightarrow> Inr (r # rs)))"

fun create_tasks :: "py_value list \<Rightarrow> py_value list \<Rightarrow> error + py_value list" where
  "create_tasks [] tasks = Inr tasks"
| "create_tasks (entry # cache_data) tasks =
     (case entry_url entry of
        Inl e \<Rightarrow> Inl e
      | Inr url \<Rightarrow> create_tasks cache_data (if truthy url then tasks @ [entry] else tasks))"

fun append_valid :: "(py_value \<times> bool) list \<Rightarrow> py_value list \<Rightarrow> py_value list" where
  "append_valid [] valid_entries = valid_entries"
| "append_valid ((entry, is_valid) # results) valid_entries =
     append_valid results (if is_valid then valid_entries @ [entry] else valid_entries)"

definition batch_size :: nat where
  "batch_size = 10"

function run_batches ::
  "session \<Rightarrow> py_value list \<Rightarrow> nat \<Rightarrow> py_value list \<Rightarrow> event list
     \<Rightarrow> (error + py_value list) \<times> event list" where
  "run_batches s tasks i valid_entries trace =
     (if i < length tasks then
        (let batch = take batch_size (drop i tasks) in
         case gather s batch of
           Inl e \<Rightarrow> (Inl e, trace @ [GatherStart batch])
         | Inr results \<Rightarrow>
             run_batches s tasks (i + batch_size) (append_valid results valid_entries)
               (trace @ [GatherStart batch, GatherDone batch, Sleep (1 / 2)]))
      else (Inr valid_entries, trace))"
  by pat_completeness auto
termination
  by (relation "measure (\<lambda>(s, tasks, i, valid_entries, trace). length tasks - i)")
    (auto simp: batch_size_def)

text \<open>
  The cache file as the run finds it: absent from the file system, present but not
  openable, present but not JSON, or decoded to a value.
\<close>

datatype file_content = Unreadable | Invalid_JSON | JSON py_value

type_synonym file_system = "string \<rightharpoonup> file_content"

definition validate_cache ::
  "session \<Rightarrow> file_system \<Rightarrow> string \<Rightarrow> (error + py_value list) \<times> event list" where
  "validate_cache s fs cache_file =
     (case fs cache_file of
        None \<Rightarrow> (Inr [], [])
      | Some Unreadable \<Rightarrow> (Inl OSError, [])
      | Some Invalid_JSON \<Rightarrow> (Inl JSONDecodeError, [])
      | Some (JSON cache_data) \<Rightarrow>
          (case py_len cache_data of
             Inl e \<Rightarrow> (Inl e, [])
           | Inr n \<Rightarrow>
               (case py_iter cache_data of
                  Inl e \<Rightarrow> (Inl e, [InitSession])
                | Inr entries \<Rightarrow>
                    (case create_tasks entries [] of
                       Inl e \<Rightarrow> (Inl e, [InitSession])
                     | Inr tasks \<Rightarrow>
                         (case run_batches s tasks 0 [] [InitSession] of
                            (Inl e, trace) \<Rightarrow> (Inl e, trace)
                          | (Inr valid_entries, trace) \<Rightarrow>
                              (Inr valid_entries, trace @ [CloseSession]))))))"

text \<open>
  \<open>s.replace(old, new)\<close> replaces the occurrences of the literal \<open>old\<close>, found from left
  to right without overlap: the same occurrences that \<open>re_sub\<close> replaces for a literal.
\<close>

definition str_replace :: "string \<Rightarrow> string \<Rightarrow> string \<Rightarrow> string" where
  "str_replace old new s = re_sub old new s"

definition backup_name :: "string \<Rightarrow> string" where
  "backup_name cache_file = str_replace ''.json'' ''_backup.json'' cache_file"

text \<open>
  The loop body of \<open>main\<close> for one cache file: an exception from \<open>validate_cache\<close>
  leaves \<open>main\<close>; a non-empty result is written after the original was renamed to its
  backup name.
\<close>

definition process_file :: "session \<Rightarrow> file_system \<Rightarrow> string \<Rightarrow> error option \<times> file_system" where
  "process_file s fs cache_file =
     (if fs cache_file = None then (None, fs)
      else
        (case fst (validate_cache s fs cache_file) of
           Inl e \<Rightarrow> (Some e, fs)
         | Inr valid_entries \<Rightarrow>
             if valid_entries \<noteq> [] then
               (let renamed = (fs(cache_file := None))(backup_name cache_file := fs cache_file)
                in (None, renamed(cache_file \<mapsto> JSON (PyList valid_entries))))
             else (None, fs)))"

fun main_loop :: "session \<Rightarrow> string list \<Rightarrow> file_system \<Rightarrow> error option \<times> file_system" where
  "main_loop s [] fs = (None, fs)"
| "main_loop s (cache_file # files) fs =
     (case process_file s fs cache_file of
        (Some e, fs') \<Rightarrow> (Some e, fs')
      | (None, fs') \<Rightarrow> main_loop s files fs')"

definition FILES_TO_VALIDATE :: "string list" where
  "FILES_TO_VALIDATE = [''pinterest_cache.json'', ''extension/data/pinterest_cache.json'']"

definition main :: "session \<Rightarrow> file_system \<Rightarrow> error option \<times> file_system" where
  "main s fs = main_loop s FILES_TO_VALIDATE fs"

subsection \<open>The run with its console output\<close>

text \<open>
  \<open>check_url\<close>, \<open>validate_cache\<close> and \<open>main\<close> print progress lines, and a \<open>print\<close> raises
  \<open>UnicodeEncodeError\<close> when standard output cannot encode the line (the marks \<open>U+2713\<close> and
  \<open>U+2717\<close> on a console that is not UTF-8, a URL with a lone surrogate on any console).
  The definitions above are the run on a console that takes every line. The definitions of
  this subsection keep the print statements: a console says of each line whether it can be
  written, and each constructor of \<open>console_line\<close> stands for one print statement of
  \<open>validate_images.py\<close>, with the values that the line shows.
\<close>

datatype console_line =
    Validating string
  | Rule
  | NotFound string
  | Loaded nat
  | ProbeFailed string transport_failure
  | ValidLine nat nat
  | InvalidLine nat
  | RuleAfterBlank
  | CompleteHeading
  | ValidCount nat
  | RemovedCount nat
  | Skipping string
  | BackedUp string
  | Saved nat string
  | Title
  | AllComplete

type_synonym console = "console_line \<Rightarrow> bool"

definition print_line :: "console \<Rightarrow> console_line \<Rightarrow> error + unit" where
  "print_line out line = (if out line then Inr () else Inl UnicodeEncodeError)"

fun print_all :: "console \<Rightarrow> console_line list \<Rightarrow> error + unit" where
  "print_all out [] = Inr ()"
| "print_all out (line # lines) =
     (case print_line out line of Inl e \<Rightarrow> Inl e | Inr u \<Rightarrow> print_all out lines)"

text \<open>
  \<open>check_url\<close>: an exception raised in the \<open>try\<close> block is caught, the handler prints the
  first 80 characters of the URL and the name of the exception, and returns \<open>False\<close>; an
  exception raised by that \<open>print\<close> leaves \<open>check_url\<close>.
\<close>

definition check_url_printing :: "console \<Rightarrow> session \<Rightarrow> py_value \<Rightarrow> error + bool" where
  "check_url_printing out s url =
     (if \<not> truthy url \<or> \<not> isinstance_str url then Inr False
      else
        (case url of
           PyStr u \<Rightarrow>
             (case check_url_try s u of
                Inl e \<Rightarrow>
                  (case print_line out (ProbeFailed (take 80 u) e) of
                     Inl err \<Rightarrow> Inl err
                   | Inr done \<Rightarrow> Inr False)
              | Inr b \<Rightarrow> Inr b)
         | _ \<Rightarrow> Inr False))"

definition validate_entry_printing ::
  "console \<Rightarrow> session \<Rightarrow> py_value \<Rightarrow> error + (py_value \<times> bool)" where
  "validate_entry_printing out s entry =
     (case entry_url entry of
        Inl e \<Rightarrow> Inl e
      | Inr url \<Rightarrow>
          (case check_url_printing out s url of
             Inl e \<Rightarrow> Inl e
           | Inr is_valid \<Rightarrow> Inr (entry, is_valid)))"

fun gather_printing ::
  "console \<Rightarrow> session \<Rightarrow> py_value list \<Rightarrow> error + (py_value \<times> bool) list" where
  "gather_printing out s [] = Inr []"
| "gather_printing out s (entry # batch) =
     (case validate_entry_printing out s entry of
        Inl e \<Rightarrow> Inl e
      | Inr r \<Rightarrow>
          (case gather_printing out s batch of Inl e \<Rightarrow> Inl e | Inr rs \<Rightarrow> Inr (r # rs)))"

text \<open>
  The loop over the results of a batch, which prints one line for each result;
  \<open>n_entries\<close> is \<open>len(cache_data)\<close>.
\<close>

fun report_results ::
  "console \<Rightarrow> nat \<Rightarrow> (py_value \<times> bool) list \<Rightarrow> py_value list \<Rightarrow> error + py_value list" where
  "report_results out n_entries [] valid_entries = Inr valid_entries"
| "report_results out n_entries ((entry, is_valid) # results) valid_entries =
     (if is_valid then
        (case print_line out (ValidLine (length (valid_entries @ [entry])) n_entries) of
           Inl e \<Rightarrow> Inl e
         | Inr done \<Rightarrow> report_results out n_entries results (valid_entries @ [entry]))
      else
        (case print_line out (InvalidLine (n_entries - length valid_entries)) of
           Inl e \<Rightarrow> Inl e
         | Inr done \<Rightarrow> report_results out n_entries results valid_entries))"

function run_batches_printing ::
  "console \<Rightarrow> session \<Rightarrow> nat \<Rightarrow> py_value list \<Rightarrow> nat \<Rightarrow> py_value list \<Rightarrow> event list
     \<Rightarrow> (error + py_value list) \<times> event list" where
  "run_batches_printing out s n_entries tasks i valid_entries trace =
     (if i < length tasks then
        (let batch = take batch_size (drop i tasks) in
         case gather_printing out s batch of
           Inl e \<Rightarrow> (Inl e, trace @ [GatherStart batch])
         | Inr results \<Rightarrow>
             (case report_results out n_entries results valid_entries of
                Inl e \<Rightarrow> (Inl e, trace @ [GatherStart batch, GatherDone batch])
              | Inr valid_entries' \<Rightarrow>
                  run_batches_printing out s n_entries tasks (i + batch_size) valid_entries'
                    (trace @ [GatherStart batch, GatherDone batch, Sleep (1 / 2)])))
      else (Inr valid_entries, trace))"
  by pat_completeness auto
termination
  by (relation "measure (\<lambda>(out, s, n_entries, tasks, i, valid_entries, trace). length tasks - i)")
    (auto simp: batch_size_def)

definition validate_cache_printing ::
  "console \<Rightarrow> session \<Rightarrow> file_system \<Rightarrow> string
     \<Rightarrow> (error + py_value list) \<times> event list" where
  "validate_cache_printing out s fs cache_file =
     (case print_all out [Validating cache_file, Rule] of
        Inl e \<Rightarrow> (Inl e, [])
      | Inr started \<Rightarrow>
     (case fs cache_file of
        None \<Rightarrow>
          (case print_line out (NotFound cache_file) of
             Inl e \<Rightarrow> (Inl e, [])
           | Inr done \<Rightarrow> (Inr [], []))
      | Some Unreadable \<Rightarrow> (Inl OSError, [])
      | Some Invalid_JSON \<Rightarrow> (Inl JSONDecodeError, [])
      | Some (JSON cache_data) \<Rightarrow>
          (case py_len cache_data of
             Inl e \<Rightarrow> (Inl e, [])
           | Inr n \<Rightarrow>
          (case print_line out (Loaded n) of
             Inl e \<Rightarrow> (Inl e, [])
           | Inr done \<Rightarrow>
          (case py_iter cache_data of
             Inl e \<Rightarrow> (Inl e, [InitSession])
           | Inr entries \<Rightarrow>
          (case create_tasks entries [] of
             Inl e \<Rightarrow> (Inl e, [InitSession])
           | Inr tasks \<Rightarrow>
          (case run_batches_printing out s n tasks 0 [] [InitSession] of
             (Inl e, trace) \<Rightarrow> (Inl e, trace)
           | (Inr valid_entries, trace) \<Rightarrow>
               (case print_all out
                       [RuleAfterBlank, CompleteHeading, ValidCount (length valid_entries),
                        RemovedCount (n - length valid_entries), Rule] of
                  Inl e \<Rightarrow> (Inl e, trace @ [CloseSession])
                | Inr done \<Rightarrow> (Inr valid_entries, trace @ [CloseSession])))))))))"

text \<open>
  The loop body of \<open>main\<close> with its prints: a missing file is skipped with a line, the
  backup line is printed between the rename and the write, and \<open>save_validated_cache\<close>
  prints after it has written.
\<close>

definition process_file_printing ::
  "console \<Rightarrow> session \<Rightarrow> file_system \<Rightarrow> string \<Rightarrow> error option \<times> file_system" where
  "process_file_printing out s fs cache_file =
     (if fs cache_file = None then
        (case print_line out (Skipping cache_file) of
           Inl e \<Rightarrow> (Some e, fs)
         | Inr done \<Rightarrow> (None, fs))
      else
        (case fst (validate_cache_printing out s fs cache_file) of
           Inl e \<Rightarrow> (Some e, fs)
         | Inr valid_entries \<Rightarrow>
             if valid_entries \<noteq> [] then
               (let renamed = (fs(cache_file := None))(backup_name cache_file := fs cache_file)
                in case print_line out (BackedUp (backup_name cache_file)) of
                     Inl e \<Rightarrow> (Some e, renamed)
                   | Inr done \<Rightarrow>
                       (let saved = renamed(cache_file \<mapsto> JSON (PyList valid_entries))
                        in case print_line out (Saved (length valid_entries) cache_file) of
                             Inl e \<Rightarrow> (Some e, saved)
                           | Inr done' \<Rightarrow> (None, saved)))
             else (None, fs)))"

text \<open>
  The loop of \<open>main\<close> and \<open>main\<close> itself with their prints: the heading before the loop
  and the closing line after it.
\<close>

fun main_loop_printing ::
  "console \<Rightarrow> session \<Rightarrow> string list \<Rightarrow> file_system \<Rightarrow> error option \<times> file_system" where
  "main_loop_printing out s [] fs = (None, fs)"
| "main_loop_printing out s (cache_file # files) fs =
     (case process_file_printing out s fs cache_file of
        (Some e, fs') \<Rightarrow> (Some e, fs')
      | (None, fs') \<Rightarrow> main_loop_printing out s files fs')"

definition main_printing :: "console \<Rightarrow> session \<Rightarrow> file_system \<Rightarrow> error option \<times> file_system" where
  "main_printing out s fs =
     (case print_all out [Rule, Title, Rule] of
        Inl e \<Rightarrow> (Some e, fs)
      | Inr started \<Rightarrow>
          (case main_loop_printing out s FILES_TO_VALIDATE fs of
             (Some e, fs') \<Rightarrow> (Some e, fs')
           | (None, fs') \<Rightarrow>
               (case print_line out AllComplete of
                  Inl e \<Rightarrow> (Some e, fs')
                | Inr done \<Rightarrow> (None, fs'))))"

text \<open>A console on which no \<open>print\<close> raises.\<close>

definition takes_every_line :: "console \<Rightarrow> bool" where
  "takes_every_line out = (\<forall>line. out line)"

text \<open>
  Two consoles for the examples. One takes every line. The other cannot encode the marks
  \<open>U+2713\<close> and \<open>U+2717\<close>, as a console with an ASCII or a Windows code page: it
  refuses the six lines that carry a mark and takes the others.
\<close>

definition utf8_console :: console where
  "utf8_console = (\<lambda>line. True)"

definition ascii_console :: console where
  "ascii_console =
     (\<lambda>line. case line of
        ProbeFailed url e \<Rightarrow> False
      | ValidLine k n \<Rightarrow> False
      | InvalidLine k \<Rightarrow> False
      | BackedUp backup_file \<Rightarrow> False
      | Saved k output_file \<Rightarrow> False
      | AllComplete \<Rightarrow> False
      | _ \<Rightarrow> True)"

subsection \<open>Observations on a trace\<close>

fun session_state :: "bool \<Rightarrow> event list \<Rightarrow> bool" where
  "session_state is_open [] = is_open"
| "session_state is_open (InitSession # evs) = session_state True evs"
| "session_state is_open (CloseSession # evs) = session_state False evs"
| "session_state is_open (ev # evs) = session_state is_open evs"

definition session_open :: "event list \<Rightarrow> bool" where
  "session_open trace = session_state False trace"




definition batch_events :: "py_value list \<Rightarrow> event list" where
  "batch_events batch = [GatherStart batch, GatherDone batch, Sleep (1 / 2)]"

subsection \<open>Vocabulary of the claims about a validation run\<close>

text \<open>
  An entry-like record is a JSON object; an entry with a URL is one for which the run
  creates a probe. Fixed-size batches are the specification's reading of the batching, for
  comparison with the index loop of \<open>validate_cache\<close>.
\<close>

fun is_dict :: "py_value \<Rightarrow> bool" where
  "is_dict (PyDict kvs) = True"
| "is_dict v = False"

definition has_url :: "py_value \<Rightarrow> bool" where
  "has_url entry = (case entry_url entry of Inl e \<Rightarrow> False | Inr url \<Rightarrow> truthy url)"

definition probe_succeeds :: "session \<Rightarrow> py_value \<Rightarrow> bool" where
  "probe_succeeds s entry = (validate_entry s entry = Inr (entry, True))"

function split_batches :: "nat \<Rightarrow> 'a list \<Rightarrow> 'a list list" where
  "split_batches n xs =
     (if n = 0 \<or> xs = [] then [] else take n xs # split_batches n (drop n xs))"
  by pat_completeness auto
termination
  by (relation "measure (\<lambda>(n, xs). length xs)") auto

subsection \<open>Concrete sessions and entries used in examples\<close>

definition dead_session :: session where
  "dead_session = \<lparr>head_request = (\<lambda>url. Failed Timeout), get_request = (\<lambda>url. Failed Timeout)\<rparr>"

text \<open>
  A remote side on which a URL containing \<open>dead\<close> times out, a URL containing \<open>page\<close> is
  served as HTML, and every other URL is served as a JPEG image to \<open>HEAD\<close>.
\<close>

definition example_session :: session where
  "example_session =
     \<lparr>head_request =
        (\<lambda>url. if sublist ''dead'' url then Failed Timeout
              else if sublist ''page'' url then Response 200 (Some ''text/html'')
              else Response 200 (Some ''image/jpeg'')),
      get_request =
        (\<lambda>url. if sublist ''page'' url then Response 200 (Some ''text/html'')
              else Failed ConnectionRefused)\<rparr>"

definition media_entry :: "string \<Rightarrow> py_value" where
  "media_entry u = PyDict [(''media'', PyStr u), (''title'', PyStr ''Aesthetic Pin'')]"

definition example_pin :: "string \<Rightarrow> string \<Rightarrow> pin" where
  "example_pin t u =
     \<lparr>pin_title = t, pin_url = ''https://www.pinterest.com/pin/1/'', pin_media = u,
      pin_quality = ''hd-original''\<rparr>"

definition example_raw :: "string \<Rightarrow> raw_pin" where
  "example_raw src =
     \<lparr>raw_img_src = Some src, raw_title = None,
      raw_pin_url = ''https://www.pinterest.com/pin/1/''\<rparr>"


definition example_cache :: "py_value \<Rightarrow> file_system" where
  "example_cache data = [''pinterest_cache.json'' \<mapsto> JSON data]"

section \<open>Properties of the URL validity check\<close>

lemma lower_invalid_patterns:
  "pattern \<in> set invalid_patterns \<Longrightarrow> lower pattern = pattern"
  by (auto simp: invalid_patterns_def lower_def lower_char_def)

lemma sublist_lower: "sublist p s \<Longrightarrow> sublist (lower p) (lower s)"
  unfolding lower_def by (rule map_mono_sublist)

lemma is_valid_str_deny_lower:
  assumes "pattern \<in> set invalid_patterns" and "sublist pattern (lower url)"
  shows "is_valid_str url = Inr False"
proof -
  from assms have "list_ex (\<lambda>pattern. sublist pattern (lower url)) invalid_patterns"
    unfolding list_ex_iff by blast
  then show ?thesis by (simp add: is_valid_str_def)
qed

lemma is_valid_str_deny:
  assumes "pattern \<in> set invalid_patterns" and "sublist pattern url"
  shows "is_valid_str url = Inr False"
proof -
  from assms(2) have "sublist (lower pattern) (lower url)" by (rule sublist_lower)
  with assms(1) have "sublist pattern (lower url)" by (simp add: lower_invalid_patterns)
  with assms(1) show ?thesis by (rule is_valid_str_deny_lower)
qed

lemma is_valid_str_domain:
  "\<not> sublist ''pinimg.com'' url \<Longrightarrow> is_valid_str url = Inr False"
  by (simp add: is_valid_str_def)

lemma is_valid_str_extension:
  assumes "urlparse_path url = Inr path"
    and "\<not> list_ex (\<lambda>ext. suffix ext (lower path)) valid_extensions"
  shows "is_valid_str url = Inr False"
  using assms by (simp add: is_valid_str_def)

lemma is_valid_non_string:
  "\<not> truthy v \<or> \<not> isinstance_str v \<Longrightarrow> is_valid_image_url v = Inr False"
  by (cases v) auto

text \<open>
  What \<open>is_valid_image_url\<close> rejects: every empty or non-string argument, every URL that
  contains a deny-list substring (whatever its domain), every URL that does not contain the
  CDN host, and every URL that \<open>urlparse\<close> takes and whose path does not end, after
  lowercasing, in \<open>.jpg\<close>, \<open>.jpeg\<close>, \<open>.png\<close> or \<open>.webp\<close>.
  It accepts \<open>https://i.pinimg.com/originals/ab/cd/photo.jpg\<close> and rejects
  \<open>https://i.pinimg.com/originals/ab/cd/photo.gif\<close>.
\<close>

lemma is_valid_image_url_rejections:
  "(\<forall>v. \<not> truthy v \<or> \<not> isinstance_str v \<longrightarrow> is_valid_image_url v = Inr False)
   \<and> (\<forall>url pattern. pattern \<in> set invalid_patterns \<and> sublist pattern url
         \<longrightarrow> is_valid_image_url (PyStr url) = Inr False)
   \<and> (\<forall>url. \<not> sublist ''pinimg.com'' url \<longrightarrow> is_valid_image_url (PyStr url) = Inr False)
   \<and> (\<forall>url path. urlparse_path url = Inr path
         \<and> \<not> list_ex (\<lambda>ext. suffix ext (lower path)) valid_extensions
         \<longrightarrow> is_valid_image_url (PyStr url) = Inr False)
   \<and> is_valid_image_url (PyStr ''https://i.pinimg.com/originals/ab/cd/photo.jpg'') = Inr True
   \<and> is_valid_image_url (PyStr ''https://i.pinimg.com/originals/ab/cd/photo.gif'') = Inr False"
proof (intro conjI allI impI)
  fix v assume "\<not> truthy v \<or> \<not> isinstance_str v"
  then show "is_valid_image_url v = Inr False" by (rule is_valid_non_string)
next
  fix url pattern
  assume "pattern \<in> set invalid_patterns \<and> sublist pattern url"
  then show "is_valid_image_url (PyStr url) = Inr False"
    by (auto simp: is_valid_str_deny)
next
  fix url assume "\<not> sublist ''pinimg.com'' url"
  then show "is_valid_image_url (PyStr url) = Inr False"
    by (simp add: is_valid_str_domain)
next
  fix url path
  assume "urlparse_path url = Inr path
    \<and> \<not> list_ex (\<lambda>ext. suffix ext (lower path)) valid_extensions"
  then show "is_valid_image_url (PyStr url) = Inr False"
    by (simp add: is_valid_str_extension)
next
  show "is_valid_image_url (PyStr ''https://i.pinimg.com/originals/ab/cd/photo.jpg'') = Inr True"
    by code_simp
next
  show "is_valid_image_url (PyStr ''https://i.pinimg.com/originals/ab/cd/photo.gif'') = Inr False"
    by code_simp
qed

lemma is_valid_image_url_rejections_examples:
  "is_valid_image_url PyNone = Inr False
   \<and> is_valid_image_url (PyInt 7) = Inr False
   \<and> is_valid_image_url (PyStr '''') = Inr False
   \<and> ''data:'' \<in> set invalid_patterns
   \<and> sublist ''data:'' ''data:image/png;base64,i.pinimg.com/a.png''
   \<and> is_valid_image_url (PyStr ''data:image/png;base64,i.pinimg.com/a.png'') = Inr False
   \<and> \<not> sublist ''pinimg.com'' ''https://example.com/originals/a.jpg''
   \<and> is_valid_image_url (PyStr ''https://example.com/originals/a.jpg'') = Inr False
   \<and> urlparse_path ''https://i.pinimg.com/originals/a.txt'' = Inr ''/originals/a.txt''
   \<and> \<not> list_ex (\<lambda>ext. suffix ext (lower ''/originals/a.txt'')) valid_extensions
   \<and> is_valid_image_url (PyStr ''https://i.pinimg.com/originals/a.txt'') = Inr False"
proof -
  have h1: "''data:'' \<in> set invalid_patterns" by (simp add: invalid_patterns_def)
  have h2: "sublist ''data:'' ''data:image/png;base64,i.pinimg.com/a.png''" by code_simp
  have h3: "\<not> sublist ''pinimg.com'' ''https://example.com/originals/a.jpg''" by code_simp
  have h4: "urlparse_path ''https://i.pinimg.com/originals/a.txt'' = Inr ''/originals/a.txt''"
    by code_simp
  have h5: "\<not> list_ex (\<lambda>ext. suffix ext (lower ''/originals/a.txt'')) valid_extensions"
    by code_simp
  note T = is_valid_image_url_rejections
  from T have "is_valid_image_url PyNone = Inr False" by simp
  moreover from T have "is_valid_image_url (PyInt 7) = Inr False" by simp
  moreover from T have "is_valid_image_url (PyStr '''') = Inr False" by simp
  moreover from T h1 h2
  have "is_valid_image_url (PyStr ''data:image/png;base64,i.pinimg.com/a.png'') = Inr False"
    by blast
  moreover from T h3
  have "is_valid_image_url (PyStr ''https://example.com/originals/a.jpg'') = Inr False"
    by blast
  moreover from T h4 h5
  have "is_valid_image_url (PyStr ''https://i.pinimg.com/originals/a.txt'') = Inr False"
    by blast
  ultimately show ?thesis using h1 h2 h3 h4 h5 by blast
qed

text \<open>
  The function has three results, not two. It raises exactly for a string that passes the
  deny-list test and the domain test and on which \<open>urlparse\<close> raises; it accepts exactly a
  string that passes both tests and whose parsed path ends in an accepted extension.
\<close>

lemma is_valid_image_url_raises_iff:
  "is_valid_image_url v = Inl e \<longleftrightarrow>
     (\<exists>url. v = PyStr url
        \<and> \<not> list_ex (\<lambda>pattern. sublist pattern (lower url)) invalid_patterns
        \<and> sublist ''pinimg.com'' url
        \<and> urlparse_path url = Inl e)"
proof (cases v)
  case (PyStr url)
  show ?thesis
  proof (cases "url = []")
    case True
    with PyStr show ?thesis by simp
  next
    case False
    with PyStr show ?thesis
      by (cases "urlparse_path url") (auto simp: is_valid_str_def)
  qed
qed simp_all

lemma is_valid_image_url_accepts_iff:
  "is_valid_image_url v = Inr True \<longleftrightarrow>
     (\<exists>url path. v = PyStr url
        \<and> \<not> list_ex (\<lambda>pattern. sublist pattern (lower url)) invalid_patterns
        \<and> sublist ''pinimg.com'' url
        \<and> urlparse_path url = Inr path
        \<and> list_ex (\<lambda>ext. suffix ext (lower path)) valid_extensions)"
proof (cases v)
  case (PyStr url)
  show ?thesis
  proof (cases "url = []")
    case True
    with PyStr show ?thesis by simp
  next
    case False
    with PyStr show ?thesis
      by (cases "urlparse_path url") (auto simp: is_valid_str_def)
  qed
qed simp_all

lemma urlparse_path_bracket_examples:
  "urlparse_path ''https://[i.pinimg.com]/a.txt'' = Inl ValueError
   \<and> urlparse_path ''https://i.pinimg.com]/a.jpg'' = Inl ValueError
   \<and> urlparse_path ''https://[::1]/pinimg.com/a.jpg'' = Inr ''/pinimg.com/a.jpg''
   \<and> urlparse_path ''https://i.pinimg.com/a[b.jpg'' = Inr ''/a[b.jpg''"
  by code_simp

text \<open>
  Claim C4. \<open>is_valid_image_url\<close> does not return \<open>False\<close> for every URL that it does not
  accept. \<open>https://[i.pinimg.com/a.txt\<close> contains no deny-list substring and contains the
  CDN host, so the function reaches \<open>urlparse\<close>; its network location \<open>[i.pinimg.com\<close> has
  an opening square bracket and no closing one, \<open>urlparse\<close> raises \<open>ValueError\<close>, nothing
  in the function catches it, and the function raises where the claim has it return
  \<open>False\<close>. The same URL with the extension \<open>.jpg\<close> raises as well.
\<close>

theorem is_valid_image_url_raises_on_unmatched_bracket:
  "truthy (PyStr ''https://[i.pinimg.com/a.txt'')
   \<and> isinstance_str (PyStr ''https://[i.pinimg.com/a.txt'')
   \<and> \<not> list_ex (\<lambda>pattern. sublist pattern (lower ''https://[i.pinimg.com/a.txt''))
         invalid_patterns
   \<and> sublist ''pinimg.com'' ''https://[i.pinimg.com/a.txt''
   \<and> urlparse_path ''https://[i.pinimg.com/a.txt'' = Inl ValueError
   \<and> is_valid_image_url (PyStr ''https://[i.pinimg.com/a.txt'') = Inl ValueError
   \<and> is_valid_image_url (PyStr ''https://[i.pinimg.com/a.jpg'') = Inl ValueError"
  by code_simp

text \<open>
  Claim C10. The deny-list test looks for its substrings in the lowercased whole URL, not
  in the extension: a URL with \<open>.gif\<close> anywhere in it, in any letter case, is rejected,
  also when its path ends in an accepted extension. \<open>https://i.pinimg.com/x.gifts/photo.jpg\<close>
  (whose path ends in \<open>.jpg\<close>) and a URL ending in \<open>.GIF\<close> are both rejected.
\<close>

theorem deny_list_matches_lowercased_whole_url:
  "(\<forall>url. sublist ''.gif'' (lower url) \<longrightarrow> is_valid_image_url (PyStr url) = Inr False)
   \<and> urlparse_path ''https://i.pinimg.com/x.gifts/photo.jpg'' = Inr ''/x.gifts/photo.jpg''
   \<and> suffix ''.jpg'' (lower ''/x.gifts/photo.jpg'')
   \<and> is_valid_image_url (PyStr ''https://i.pinimg.com/x.gifts/photo.jpg'') = Inr False
   \<and> is_valid_image_url (PyStr ''https://i.pinimg.com/originals/ab/cd/photo.GIF'') = Inr False"
proof (intro conjI allI impI)
  fix url assume a: "sublist ''.gif'' (lower url)"
  have m: "''.gif'' \<in> set invalid_patterns" by (simp add: invalid_patterns_def)
  from m a have "is_valid_str url = Inr False" by (rule is_valid_str_deny_lower)
  moreover from a have "url \<noteq> []" by (auto simp: lower_def)
  ultimately show "is_valid_image_url (PyStr url) = Inr False" by simp
qed (code_simp+)

theorem deny_list_matches_lowercased_whole_url_witness:
  "sublist ''.gif'' (lower ''https://i.pinimg.com/a/B.GiF/c.png'')
   \<and> is_valid_image_url (PyStr ''https://i.pinimg.com/a/B.GiF/c.png'') = Inr False"
proof -
  have h: "sublist ''.gif'' (lower ''https://i.pinimg.com/a/B.GiF/c.png'')" by code_simp
  with deny_list_matches_lowercased_whole_url show ?thesis by blast
qed

section \<open>Properties of the URL normaliser\<close>

lemma re_sub_absent:
  "pat \<noteq> [] \<Longrightarrow> \<not> sublist pat s \<Longrightarrow> re_sub pat rep s = s"
proof (induction s)
  case Nil
  then show ?case by simp
next
  case (Cons c cs)
  from Cons.prems have "\<not> prefix pat (c # cs)" and "\<not> sublist pat cs"
    by (auto simp: sublist_Cons_right)
  with Cons show ?case by simp
qed

lemma re_sub_present:
  "pat \<noteq> [] \<Longrightarrow> sublist pat s \<Longrightarrow> sublist rep (re_sub pat rep s)"
proof (induction s)
  case Nil
  then show ?case by simp
next
  case (Cons c cs)
  show ?case
  proof (cases "prefix pat (c # cs)")
    case True
    with Cons.prems show ?thesis by simp
  next
    case False
    with Cons.prems have "sublist pat cs" by (simp add: sublist_Cons_right)
    with Cons have "sublist rep (re_sub pat rep cs)" by simp
    with False Cons.prems show ?thesis by (simp add: sublist_Cons_right)
  qed
qed

lemma re_sub_keeps_replacement:
  assumes "pat \<noteq> []" and "sublist rep s"
  shows "sublist rep (re_sub pat rep s)"
proof (cases "sublist pat s")
  case True
  with assms(1) show ?thesis by (rule re_sub_present)
next
  case False
  with assms show ?thesis by (simp add: re_sub_absent)
qed

lemma re_sub_step:
  assumes "pat \<noteq> []" and "sublist rep s \<or> sublist q s"
  shows "sublist rep (re_sub pat rep s) \<or> sublist q (re_sub pat rep s)"
proof (cases "sublist pat s")
  case True
  with assms(1) show ?thesis by (simp add: re_sub_present)
next
  case False
  with assms show ?thesis by (auto simp: re_sub_absent)
qed

lemma convert_cdn:
  "sublist ''pinimg.com'' url \<Longrightarrow>
   convert_to_original_url url =
     re_sub ''/originals/'' ''/originals/''
       (re_sub ''/736x/'' ''/originals/''
         (re_sub ''/564x/'' ''/originals/''
           (re_sub ''/474x/'' ''/originals/''
             (re_sub ''/236x/'' ''/originals/'' url))))"
  by (auto simp: convert_to_original_url_def patterns_def)

lemma convert_thumbnail_gives_originals:
  assumes cdn: "sublist ''pinimg.com'' url"
    and thumb: "list_ex (\<lambda>size. sublist size url) thumbnail_sizes"
  shows "sublist ''/originals/'' (convert_to_original_url url)"
proof -
  let ?r = "''/originals/''"
  let ?u1 = "re_sub ''/236x/'' ?r url"
  let ?u2 = "re_sub ''/474x/'' ?r ?u1"
  let ?u3 = "re_sub ''/564x/'' ?r ?u2"
  let ?u4 = "re_sub ''/736x/'' ?r ?u3"
  from thumb have t: "sublist ''/236x/'' url \<or> sublist ''/474x/'' url
      \<or> sublist ''/564x/'' url \<or> sublist ''/736x/'' url"
    by (simp add: thumbnail_sizes_def)
  have s1: "sublist ?r ?u1 \<or> sublist ''/474x/'' ?u1 \<or> sublist ''/564x/'' ?u1 \<or> sublist ''/736x/'' ?u1"
  proof (cases "sublist ''/236x/'' url")
    case True
    then show ?thesis by (simp add: re_sub_present)
  next
    case False
    with t show ?thesis by (simp add: re_sub_absent)
  qed
  have s2: "sublist ?r ?u2 \<or> sublist ''/564x/'' ?u2 \<or> sublist ''/736x/'' ?u2"
  proof (cases "sublist ''/474x/'' ?u1")
    case True
    then show ?thesis by (simp add: re_sub_present)
  next
    case False
    with s1 show ?thesis using re_sub_keeps_replacement[of "''/474x/''" ?r ?u1]
      by (auto simp: re_sub_absent)
  qed
  have s3: "sublist ?r ?u3 \<or> sublist ''/736x/'' ?u3"
  proof (cases "sublist ''/564x/'' ?u2")
    case True
    then show ?thesis by (simp add: re_sub_present)
  next
    case False
    with s2 show ?thesis using re_sub_keeps_replacement[of "''/564x/''" ?r ?u2]
      by (auto simp: re_sub_absent)
  qed
  have s4: "sublist ?r ?u4"
  proof (cases "sublist ''/736x/'' ?u3")
    case True
    then show ?thesis by (simp add: re_sub_present)
  next
    case False
    with s3 show ?thesis using re_sub_keeps_replacement[of "''/736x/''" ?r ?u3]
      by (auto simp: re_sub_absent)
  qed
  then have "sublist ?r (re_sub ?r ?r ?u4)"
    by (simp add: re_sub_keeps_replacement)
  with cdn show ?thesis by (simp only: convert_cdn)
qed

lemma classify_thumbnail_has_size:
  "classify_type url = Thumbnail \<Longrightarrow> list_ex (\<lambda>size. sublist size url) thumbnail_sizes"
  by (simp add: classify_type_def split: if_splits)

text \<open>
  Claim C6 (amended). For every URL that references the CDN host and is of thumbnail tier
  (the classifier says \<open>Thumbnail\<close>, or more generally the URL contains one of
  \<open>/236x/\<close>, \<open>/474x/\<close>, \<open>/564x/\<close>, \<open>/736x/\<close>), the normalised URL contains
  \<open>/originals/\<close> and is classified \<open>Original\<close>.
\<close>

theorem normalized_cdn_thumbnail_is_original:
  assumes "sublist ''pinimg.com'' url"
    and "classify_type url = Thumbnail \<or> list_ex (\<lambda>size. sublist size url) thumbnail_sizes"
  shows "classify_type (convert_to_original_url url) = Original"
proof -
  from assms(2) have "list_ex (\<lambda>size. sublist size url) thumbnail_sizes"
    by (auto dest: classify_thumbnail_has_size)
  with assms(1) have "sublist ''/originals/'' (convert_to_original_url url)"
    by (rule convert_thumbnail_gives_originals)
  then show ?thesis by (simp add: classify_type_def)
qed

theorem normalized_cdn_thumbnail_is_original_witness:
  "sublist ''pinimg.com'' ''https://i.pinimg.com/236x/ab/cd/photo.jpg''
   \<and> classify_type ''https://i.pinimg.com/236x/ab/cd/photo.jpg'' = Thumbnail
   \<and> convert_to_original_url ''https://i.pinimg.com/236x/ab/cd/photo.jpg''
       = ''https://i.pinimg.com/originals/ab/cd/photo.jpg''
   \<and> classify_type (convert_to_original_url ''https://i.pinimg.com/236x/ab/cd/photo.jpg'') = Original"
proof -
  have h1: "sublist ''pinimg.com'' ''https://i.pinimg.com/236x/ab/cd/photo.jpg''" by code_simp
  have h2: "classify_type ''https://i.pinimg.com/236x/ab/cd/photo.jpg'' = Thumbnail" by code_simp
  have h3: "convert_to_original_url ''https://i.pinimg.com/236x/ab/cd/photo.jpg''
       = ''https://i.pinimg.com/originals/ab/cd/photo.jpg''" by code_simp
  from h2 have "classify_type ''https://i.pinimg.com/236x/ab/cd/photo.jpg'' = Thumbnail
     \<or> list_ex (\<lambda>size. sublist size ''https://i.pinimg.com/236x/ab/cd/photo.jpg'') thumbnail_sizes"
    by (rule disjI1)
  with h1 have "classify_type (convert_to_original_url ''https://i.pinimg.com/236x/ab/cd/photo.jpg'') = Original"
    by (rule normalized_cdn_thumbnail_is_original)
  with h1 h2 h3 show ?thesis by (intro conjI)
qed

text \<open>
  Claim C6 as stated fails for a thumbnail-tier URL that does not reference the CDN host:
  the guard at the head of \<open>convert_to_original_url\<close> returns it unchanged, and it is
  still of thumbnail tier.
\<close>

theorem non_cdn_thumbnail_stays_thumbnail:
  "list_ex (\<lambda>size. sublist size ''https://example.com/236x/ab/cd/photo.jpg'') thumbnail_sizes
   \<and> classify_type ''https://example.com/236x/ab/cd/photo.jpg'' = Thumbnail
   \<and> convert_to_original_url ''https://example.com/236x/ab/cd/photo.jpg''
       = ''https://example.com/236x/ab/cd/photo.jpg''
   \<and> classify_type (convert_to_original_url ''https://example.com/236x/ab/cd/photo.jpg'')
       \<noteq> Original"
  by code_simp

text \<open>
  Claim C5. Normalisation is not idempotent on a URL in which two thumbnail segments of
  the same size share a slash: \<open>re.sub\<close> resumes its search after the first match, so
  the second segment survives the first application and is rewritten by the second one.
\<close>

theorem convert_to_original_url_not_idempotent:
  "convert_to_original_url ''https://i.pinimg.com/236x/236x/a.jpg''
     = ''https://i.pinimg.com/originals/236x/a.jpg''
   \<and> convert_to_original_url (convert_to_original_url ''https://i.pinimg.com/236x/236x/a.jpg'')
     = ''https://i.pinimg.com/originals/originals/a.jpg''
   \<and> convert_to_original_url (convert_to_original_url ''https://i.pinimg.com/236x/236x/a.jpg'')
     \<noteq> convert_to_original_url ''https://i.pinimg.com/236x/236x/a.jpg''"
  by code_simp

subsection \<open>Where normalisation is idempotent\<close>

text \<open>
  The failure of idempotence is confined to URLs in which a thumbnail segment is followed
  at once by a segment of the same size: on every other URL one application leaves no
  thumbnail segment, and a second application changes nothing.
\<close>

lemma re_sub_match:
  assumes "pat \<noteq> []" and "prefix pat s"
  obtains rest where "s = pat @ rest" and "length rest < length s"
    and "re_sub pat rep s = rep @ re_sub pat rep rest"
proof -
  from assms obtain c cs where s: "s = c # cs" by (cases s) auto
  from assms(2) obtain rest where r: "s = pat @ rest" by (auto simp: prefix_def)
  with assms(1) s have d: "drop (length pat - 1) cs = rest" by (cases pat) auto
  from assms(1) r have l: "length rest < length s" by simp
  from assms s d have "re_sub pat rep s = rep @ re_sub pat rep rest" by simp
  with r l show ?thesis by (rule that)
qed

lemma re_sub_no_match:
  assumes "pat \<noteq> []" and "\<not> prefix pat (c # cs)"
  shows "re_sub pat rep (c # cs) = c # re_sub pat rep cs"
  using assms by simp

lemma sublist_in_right: "sublist q zs \<Longrightarrow> sublist q (ys @ zs)"
  by (simp add: sublist_append)

lemma sublist_straddle: "suffix q1 ys \<Longrightarrow> prefix q2 zs \<Longrightarrow> sublist (q1 @ q2) (ys @ zs)"
proof -
  assume "suffix q1 ys" and "prefix q2 zs"
  then obtain a b where "ys = a @ q1" and "zs = q2 @ b"
    by (auto simp: suffix_def prefix_def)
  then have "ys @ zs = a @ (q1 @ q2) @ b" by simp
  then show ?thesis unfolding sublist_def by blast
qed

lemma sublist_append_cases:
  assumes "sublist q (ys @ zs)" and "\<not> sublist q ys" and "\<not> sublist q zs"
  obtains q1 q2 where "q = q1 @ q2" and "suffix q1 ys" and "prefix q2 zs"
  using assms unfolding sublist_append by blast

lemma re_sub_same: "pat \<noteq> [] \<Longrightarrow> re_sub pat pat s = s"
proof (induction s rule: length_induct)
  case (1 s)
  note ne = \<open>pat \<noteq> []\<close>
  show ?case
  proof (cases "prefix pat s")
    case True
    with ne obtain rest where s: "s = pat @ rest" and l: "length rest < length s"
      and r: "re_sub pat pat s = pat @ re_sub pat pat rest"
      by (rule re_sub_match)
    from l ne "1.IH" have "re_sub pat pat rest = rest" by blast
    with r s show ?thesis by simp
  next
    case False
    show ?thesis
    proof (cases s)
      case Nil
      with ne show ?thesis by simp
    next
      case (Cons c cs)
      with ne "1.IH" have "re_sub pat pat cs = cs" by simp
      with ne False Cons show ?thesis by (simp add: re_sub_no_match)
    qed
  qed
qed

lemma starts_only_as_suffix:
  "starts_only_as t pat rep \<Longrightarrow> suffix t' t \<Longrightarrow> starts_only_as t' pat rep"
  by (auto simp: starts_only_as_def list_all_iff intro: suffix_order.trans)

lemma starts_only_as_self:
  "starts_only_as t pat rep \<Longrightarrow> t \<noteq> [] \<Longrightarrow> comparable t rep \<Longrightarrow> prefix t pat"
  by (auto simp: starts_only_as_def list_all_iff)

lemma prefix_re_sub_reflect:
  assumes ne: "pat \<noteq> []"
  shows "starts_only_as t pat rep \<Longrightarrow> prefix t (re_sub pat rep s) \<Longrightarrow> prefix t s"
proof (induction s arbitrary: t)
  case Nil
  with ne show ?case by simp
next
  case (Cons c cs)
  show ?case
  proof (cases "t = []")
    case True
    then show ?thesis by simp
  next
    case tne: False
    show ?thesis
    proof (cases "prefix pat (c # cs)")
      case True
      with ne obtain rest where "re_sub pat rep (c # cs) = rep @ re_sub pat rep rest"
        by (rule re_sub_match)
      with Cons.prems(2) have "prefix t (rep @ re_sub pat rep rest)" by simp
      then have "comparable t rep"
        by (auto simp: comparable_def prefix_append)
      with Cons.prems(1) tne have "prefix t pat" by (rule starts_only_as_self)
      then show ?thesis using True by (rule prefix_order.trans)
    next
      case False
      with ne Cons.prems(2) have p: "prefix t (c # re_sub pat rep cs)"
        by (simp add: re_sub_no_match)
      with tne obtain t' where t: "t = c # t'" and p': "prefix t' (re_sub pat rep cs)"
        by (cases t) auto
      from t have "suffix t' t" by (simp add: suffix_Cons)
      with Cons.prems(1) have "starts_only_as t' pat rep" by (rule starts_only_as_suffix)
      then have "prefix t' cs" using p' by (rule Cons.IH)
      with t show ?thesis by simp
    qed
  qed
qed

lemma overlaps_only_as_prefix:
  "overlaps_only_as q pat rep \<Longrightarrow> prefix q1 q \<Longrightarrow> suffix q1 rep \<Longrightarrow> suffix q1 pat"
  by (auto simp: overlaps_only_as_def list_all_iff)

lemma overlaps_itself_once_prefix:
  "overlaps_itself_once pat rep \<Longrightarrow> prefix q1 pat \<Longrightarrow> suffix q1 rep \<Longrightarrow>
   q1 \<noteq> [] \<Longrightarrow> q1 \<noteq> pat \<Longrightarrow> q1 = take 1 pat"
  by (auto simp: overlaps_itself_once_def list_all_iff)

lemma re_sub_creates_no:
  assumes ne: "pat \<noteq> []"
    and qr: "\<not> sublist q rep"
    and st: "starts_only_as q pat rep"
    and ov: "overlaps_only_as q pat rep"
  shows "\<not> sublist q s \<Longrightarrow> \<not> sublist q (re_sub pat rep s)"
proof (induction s rule: length_induct)
  case (1 s)
  note absent = \<open>\<not> sublist q s\<close>
  show ?case
  proof (cases "prefix pat s")
    case True
    with ne obtain rest where s: "s = pat @ rest" and l: "length rest < length s"
      and r: "re_sub pat rep s = rep @ re_sub pat rep rest"
      by (rule re_sub_match)
    from absent have nr: "\<not> sublist q rest"
      unfolding s using sublist_in_right by blast
    with l "1.IH" have nx: "\<not> sublist q (re_sub pat rep rest)" by blast
    have "\<not> sublist q (rep @ re_sub pat rep rest)"
    proof
      assume "sublist q (rep @ re_sub pat rep rest)"
      then obtain q1 q2 where q: "q = q1 @ q2" and s1: "suffix q1 rep"
        and p2: "prefix q2 (re_sub pat rep rest)"
        using qr nx by (rule sublist_append_cases)
      from q have "suffix q2 q" by (simp add: suffix_def)
      with st have "starts_only_as q2 pat rep" by (rule starts_only_as_suffix)
      with ne have p2': "prefix q2 rest" using p2 by (rule prefix_re_sub_reflect)
      from q have "prefix q1 q" by simp
      with ov have "suffix q1 pat" using s1 by (rule overlaps_only_as_prefix)
      then have "sublist (q1 @ q2) (pat @ rest)" using p2' by (rule sublist_straddle)
      with absent show False unfolding s q by simp
    qed
    with r show ?thesis by simp
  next
    case False
    show ?thesis
    proof (cases s)
      case Nil
      with ne absent show ?thesis by simp
    next
      case (Cons c cs)
      from absent have "\<not> sublist q cs" unfolding Cons by (simp add: sublist_Cons_right)
      with "1.IH" have nx: "\<not> sublist q (re_sub pat rep cs)" unfolding Cons by simp
      have np: "\<not> prefix q (re_sub pat rep s)"
      proof
        assume "prefix q (re_sub pat rep s)"
        with ne st have "prefix q s" by (rule prefix_re_sub_reflect)
        then have "sublist q s" by (rule prefix_imp_sublist)
        with absent show False by simp
      qed
      from ne False have e: "re_sub pat rep s = c # re_sub pat rep cs"
        unfolding Cons by (rule re_sub_no_match)
      from np nx show ?thesis unfolding e by (simp add: sublist_Cons_right)
    qed
  qed
qed

lemma re_sub_removes:
  assumes ne: "pat \<noteq> []"
    and pr: "\<not> sublist pat rep"
    and st: "starts_only_as pat pat rep"
    and ov: "overlaps_itself_once pat rep"
  shows "\<not> sublist (pat @ tl pat) s \<Longrightarrow> \<not> sublist pat (re_sub pat rep s)"
proof (induction s rule: length_induct)
  case (1 s)
  note absent = \<open>\<not> sublist (pat @ tl pat) s\<close>
  show ?case
  proof (cases "prefix pat s")
    case True
    with ne obtain rest where s: "s = pat @ rest" and l: "length rest < length s"
      and r: "re_sub pat rep s = rep @ re_sub pat rep rest"
      by (rule re_sub_match)
    from absent have nr: "\<not> sublist (pat @ tl pat) rest"
      unfolding s using sublist_in_right by blast
    with l "1.IH" have nx: "\<not> sublist pat (re_sub pat rep rest)" by blast
    have "\<not> sublist pat (rep @ re_sub pat rep rest)"
    proof
      assume "sublist pat (rep @ re_sub pat rep rest)"
      then obtain q1 q2 where q: "pat = q1 @ q2" and s1: "suffix q1 rep"
        and p2: "prefix q2 (re_sub pat rep rest)"
        using pr nx by (rule sublist_append_cases)
      have q1ne: "q1 \<noteq> []"
      proof
        assume "q1 = []"
        with q p2 have "prefix pat (re_sub pat rep rest)" by simp
        then have "sublist pat (re_sub pat rep rest)" by (rule prefix_imp_sublist)
        with nx show False by simp
      qed
      have q1np: "q1 \<noteq> pat"
      proof
        assume "q1 = pat"
        with s1 have "sublist pat rep" by (simp add: suffix_imp_sublist)
        with pr show False by simp
      qed
      from q have "suffix q2 pat" by (simp add: suffix_def)
      with st have "starts_only_as q2 pat rep" by (rule starts_only_as_suffix)
      with ne have p2': "prefix q2 rest" using p2 by (rule prefix_re_sub_reflect)
      from q have "prefix q1 pat" by (simp add: prefix_def)
      with ov have "q1 = take 1 pat" using s1 q1ne q1np by (rule overlaps_itself_once_prefix)
      with q ne have "q2 = tl pat" by (cases pat) auto
      with p2' have "prefix (pat @ tl pat) (pat @ rest)" by simp
      then have "sublist (pat @ tl pat) (pat @ rest)" by (rule prefix_imp_sublist)
      with absent show False unfolding s by simp
    qed
    with r show ?thesis by simp
  next
    case False
    show ?thesis
    proof (cases s)
      case Nil
      with ne show ?thesis by simp
    next
      case (Cons c cs)
      from absent have "\<not> sublist (pat @ tl pat) cs"
        unfolding Cons by (simp add: sublist_Cons_right)
      with "1.IH" have nx: "\<not> sublist pat (re_sub pat rep cs)" unfolding Cons by simp
      have np: "\<not> prefix pat (re_sub pat rep s)"
      proof
        assume "prefix pat (re_sub pat rep s)"
        with ne st have "prefix pat s" by (rule prefix_re_sub_reflect)
        with False show False by simp
      qed
      from ne False have e: "re_sub pat rep s = c # re_sub pat rep cs"
        unfolding Cons by (rule re_sub_no_match)
      from np nx show ?thesis unfolding e by (simp add: sublist_Cons_right)
    qed
  qed
qed

lemma thumbnail_side_conditions:
  "list_all (\<lambda>pat.
      pat \<noteq> [] \<and> \<not> sublist pat ''/originals/''
      \<and> starts_only_as pat pat ''/originals/'' \<and> overlaps_itself_once pat ''/originals/''
      \<and> list_all (\<lambda>q. \<not> sublist q ''/originals/'' \<and> starts_only_as q pat ''/originals/''
            \<and> overlaps_only_as q pat ''/originals/'')
          (thumbnail_sizes @ map (\<lambda>size. size @ tl size) thumbnail_sizes))
     thumbnail_sizes"
  by code_simp

lemma thumbnail_re_sub_creates_no:
  assumes "pat \<in> set thumbnail_sizes"
    and "q \<in> set (thumbnail_sizes @ map (\<lambda>size. size @ tl size) thumbnail_sizes)"
    and "\<not> sublist q s"
  shows "\<not> sublist q (re_sub pat ''/originals/'' s)"
proof -
  note p = thumbnail_side_conditions[unfolded list_all_iff, THEN bspec, OF assms(1)]
  note c = p[THEN conjunct2, THEN conjunct2, THEN conjunct2, THEN conjunct2, THEN bspec,
      OF assms(2)]
  from p have "pat \<noteq> []" by (rule conjunct1)
  moreover from c have "\<not> sublist q ''/originals/''" by (rule conjunct1)
  moreover from c have "starts_only_as q pat ''/originals/''"
    by (rule conjunct2[THEN conjunct1])
  moreover from c have "overlaps_only_as q pat ''/originals/''"
    by (rule conjunct2[THEN conjunct2])
  ultimately show ?thesis using assms(3) by (rule re_sub_creates_no)
qed

lemma thumbnail_re_sub_removes:
  assumes "pat \<in> set thumbnail_sizes" and "\<not> sublist (pat @ tl pat) s"
  shows "\<not> sublist pat (re_sub pat ''/originals/'' s)"
proof -
  note p = thumbnail_side_conditions[unfolded list_all_iff, THEN bspec, OF assms(1)]
  from p have "pat \<noteq> []" by (rule conjunct1)
  moreover from p have "\<not> sublist pat ''/originals/''"
    by (rule conjunct2[THEN conjunct1])
  moreover from p have "starts_only_as pat pat ''/originals/''"
    by (rule conjunct2[THEN conjunct2, THEN conjunct1])
  moreover from p have "overlaps_itself_once pat ''/originals/''"
    by (rule conjunct2[THEN conjunct2, THEN conjunct2, THEN conjunct1])
  ultimately show ?thesis using assms(2) by (rule re_sub_removes)
qed

lemma thumbnail_sizes_mem:
  "''/236x/'' \<in> set thumbnail_sizes" "''/474x/'' \<in> set thumbnail_sizes"
  "''/564x/'' \<in> set thumbnail_sizes" "''/736x/'' \<in> set thumbnail_sizes"
  by (simp_all add: thumbnail_sizes_def)

lemma thumbnail_sizes_tracked:
  "''/236x/'' \<in> set (thumbnail_sizes @ map (\<lambda>size. size @ tl size) thumbnail_sizes)"
  "''/474x/'' \<in> set (thumbnail_sizes @ map (\<lambda>size. size @ tl size) thumbnail_sizes)"
  "''/564x/'' \<in> set (thumbnail_sizes @ map (\<lambda>size. size @ tl size) thumbnail_sizes)"
  "''/474x/474x/'' \<in> set (thumbnail_sizes @ map (\<lambda>size. size @ tl size) thumbnail_sizes)"
  "''/564x/564x/'' \<in> set (thumbnail_sizes @ map (\<lambda>size. size @ tl size) thumbnail_sizes)"
  "''/736x/736x/'' \<in> set (thumbnail_sizes @ map (\<lambda>size. size @ tl size) thumbnail_sizes)"
  by (simp_all add: thumbnail_sizes_def)

lemma no_doubled_segment:
  assumes "\<not> list_ex (\<lambda>size. sublist (size @ tl size) url) thumbnail_sizes"
  shows "\<not> sublist ''/236x/236x/'' url" "\<not> sublist ''/474x/474x/'' url"
    "\<not> sublist ''/564x/564x/'' url" "\<not> sublist ''/736x/736x/'' url"
  using assms by (simp_all add: thumbnail_sizes_def)

lemma convert_leaves_no_thumbnail:
  assumes cdn: "sublist ''pinimg.com'' url"
    and nd: "\<not> list_ex (\<lambda>size. sublist (size @ tl size) url) thumbnail_sizes"
  shows "\<not> list_ex (\<lambda>size. sublist size (convert_to_original_url url)) thumbnail_sizes"
proof -
  let ?r = "''/originals/''"
  let ?u1 = "re_sub ''/236x/'' ?r url"
  let ?u2 = "re_sub ''/474x/'' ?r ?u1"
  let ?u3 = "re_sub ''/564x/'' ?r ?u2"
  let ?u4 = "re_sub ''/736x/'' ?r ?u3"
  note m = thumbnail_sizes_mem and q = thumbnail_sizes_tracked
  note d0 = no_doubled_segment[OF nd]
  have a1: "\<not> sublist ''/236x/'' ?u1"
    using thumbnail_re_sub_removes[OF m(1), of url] d0(1) by simp
  have d1: "\<not> sublist ''/474x/474x/'' ?u1" "\<not> sublist ''/564x/564x/'' ?u1"
    "\<not> sublist ''/736x/736x/'' ?u1"
    by (rule thumbnail_re_sub_creates_no[OF m(1) q(4) d0(2)],
        rule thumbnail_re_sub_creates_no[OF m(1) q(5) d0(3)],
        rule thumbnail_re_sub_creates_no[OF m(1) q(6) d0(4)])
  have a2: "\<not> sublist ''/474x/'' ?u2"
    using thumbnail_re_sub_removes[OF m(2), of ?u1] d1(1) by simp
  have b2: "\<not> sublist ''/236x/'' ?u2"
    by (rule thumbnail_re_sub_creates_no[OF m(2) q(1) a1])
  have d2: "\<not> sublist ''/564x/564x/'' ?u2" "\<not> sublist ''/736x/736x/'' ?u2"
    by (rule thumbnail_re_sub_creates_no[OF m(2) q(5) d1(2)],
        rule thumbnail_re_sub_creates_no[OF m(2) q(6) d1(3)])
  have a3: "\<not> sublist ''/564x/'' ?u3"
    using thumbnail_re_sub_removes[OF m(3), of ?u2] d2(1) by simp
  have b3: "\<not> sublist ''/236x/'' ?u3" "\<not> sublist ''/474x/'' ?u3"
    by (rule thumbnail_re_sub_creates_no[OF m(3) q(1) b2],
        rule thumbnail_re_sub_creates_no[OF m(3) q(2) a2])
  have d3: "\<not> sublist ''/736x/736x/'' ?u3"
    by (rule thumbnail_re_sub_creates_no[OF m(3) q(6) d2(2)])
  have a4: "\<not> sublist ''/736x/'' ?u4"
    using thumbnail_re_sub_removes[OF m(4), of ?u3] d3 by simp
  have b4: "\<not> sublist ''/236x/'' ?u4" "\<not> sublist ''/474x/'' ?u4" "\<not> sublist ''/564x/'' ?u4"
    by (rule thumbnail_re_sub_creates_no[OF m(4) q(1) b3(1)],
        rule thumbnail_re_sub_creates_no[OF m(4) q(2) b3(2)],
        rule thumbnail_re_sub_creates_no[OF m(4) q(3) a3])
  from cdn have "convert_to_original_url url = re_sub ?r ?r ?u4" by (rule convert_cdn)
  also have "\<dots> = ?u4" by (rule re_sub_same) simp
  finally have e: "convert_to_original_url url = ?u4" .
  from a4 b4 show ?thesis unfolding e by (simp add: thumbnail_sizes_def)
qed

lemma convert_fixed_without_thumbnail:
  assumes "\<not> list_ex (\<lambda>size. sublist size url) thumbnail_sizes"
  shows "convert_to_original_url url = url"
proof (cases "sublist ''pinimg.com'' url")
  case True
  from assms have n: "\<not> sublist ''/236x/'' url" "\<not> sublist ''/474x/'' url"
    "\<not> sublist ''/564x/'' url" "\<not> sublist ''/736x/'' url"
    by (simp_all add: thumbnail_sizes_def)
  have e1: "re_sub ''/236x/'' ''/originals/'' url = url" using n(1) by (intro re_sub_absent) simp
  have e2: "re_sub ''/474x/'' ''/originals/'' url = url" using n(2) by (intro re_sub_absent) simp
  have e3: "re_sub ''/564x/'' ''/originals/'' url = url" using n(3) by (intro re_sub_absent) simp
  have e4: "re_sub ''/736x/'' ''/originals/'' url = url" using n(4) by (intro re_sub_absent) simp
  have e5: "re_sub ''/originals/'' ''/originals/'' url = url" by (rule re_sub_same) simp
  from True show ?thesis by (simp only: convert_cdn e1 e2 e3 e4 e5)
next
  case False
  then show ?thesis by (simp add: convert_to_original_url_def)
qed

lemma convert_idempotent_without_doubled_segment:
  assumes "\<not> list_ex (\<lambda>size. sublist (size @ tl size) url) thumbnail_sizes"
  shows "convert_to_original_url (convert_to_original_url url) = convert_to_original_url url"
proof (cases "sublist ''pinimg.com'' url")
  case True
  then have "\<not> list_ex (\<lambda>size. sublist size (convert_to_original_url url)) thumbnail_sizes"
    using assms by (rule convert_leaves_no_thumbnail)
  then show ?thesis by (rule convert_fixed_without_thumbnail)
next
  case False
  then show ?thesis by (simp add: convert_to_original_url_def)
qed

lemma convert_idempotent_example:
  "\<not> list_ex (\<lambda>size. sublist (size @ tl size) ''https://i.pinimg.com/236x/ab/474x/photo.jpg'')
        thumbnail_sizes
   \<and> convert_to_original_url ''https://i.pinimg.com/236x/ab/474x/photo.jpg''
       = ''https://i.pinimg.com/originals/ab/originals/photo.jpg''
   \<and> convert_to_original_url ''https://i.pinimg.com/originals/ab/originals/photo.jpg''
       = ''https://i.pinimg.com/originals/ab/originals/photo.jpg''"
proof -
  let ?u = "''https://i.pinimg.com/236x/ab/474x/photo.jpg''"
  have h: "\<not> list_ex (\<lambda>size. sublist (size @ tl size) ?u) thumbnail_sizes" by code_simp
  have c: "convert_to_original_url ?u = ''https://i.pinimg.com/originals/ab/originals/photo.jpg''"
    by code_simp
  from convert_idempotent_without_doubled_segment[OF h]
  have "convert_to_original_url ''https://i.pinimg.com/originals/ab/originals/photo.jpg''
       = ''https://i.pinimg.com/originals/ab/originals/photo.jpg''"
    unfolding c .
  with h c show ?thesis by (intro conjI)
qed

section \<open>Properties of deduplication\<close>

lemma unique_pins_loop_spec:
  "unique_pins_loop max_pins pins seen_urls unique_pins =
     unique_pins @ take (nat (max 1 (max_pins - int (length unique_pins))))
       (dedupe_spec (filter (\<lambda>q. pin_media q \<notin> seen_urls) pins))"
proof (induction pins arbitrary: seen_urls unique_pins)
  case Nil
  show ?case by simp
next
  case (Cons p pins)
  show ?case
  proof (cases "pin_media p \<in> seen_urls")
    case True
    then show ?thesis by (simp add: Cons.IH)
  next
    case False
    have flt: "filter (\<lambda>q. pin_media q \<noteq> pin_media p) (filter (\<lambda>q. pin_media q \<notin> seen_urls) pins)
        = filter (\<lambda>q. pin_media q \<notin> insert (pin_media p) seen_urls) pins"
      by (simp add: conj_commute)
    show ?thesis
    proof (cases "int (length (unique_pins @ [p])) \<ge> max_pins")
      case True
      then have "nat (max 1 (max_pins - int (length unique_pins))) = 1" by simp
      with True False show ?thesis by simp
    next
      case stop: False
      then obtain k where k: "nat (max 1 (max_pins - int (length unique_pins))) = Suc k"
        and k': "nat (max 1 (max_pins - int (length (unique_pins @ [p])))) = k"
        by (cases "nat (max 1 (max_pins - int (length unique_pins)))") auto
      from stop False show ?thesis
        using Cons.IH[of "insert (pin_media p) seen_urls" "unique_pins @ [p]"] k k' flt
        by simp
    qed
  qed
qed

lemma dedupe_pins_spec:
  "dedupe_pins max_pins pins = take (nat (max 1 max_pins)) (dedupe_spec pins)"
  by (simp add: dedupe_pins_def unique_pins_loop_spec)

lemma set_dedupe_spec: "set (dedupe_spec pins) \<subseteq> set pins"
  by (induction pins rule: dedupe_spec.induct) auto

lemma keys_dedupe_spec: "pin_media ` set (dedupe_spec pins) = pin_media ` set pins"
proof (induction pins rule: dedupe_spec.induct)
  case 1
  show ?case by simp
next
  case (2 p ps)
  then show ?case by (auto simp: image_iff)
qed

lemma distinct_dedupe_spec: "distinct (map pin_media (dedupe_spec pins))"
proof (induction pins rule: dedupe_spec.induct)
  case 1
  show ?case by simp
next
  case (2 p ps)
  have "pin_media p \<notin> pin_media ` set (dedupe_spec (filter (\<lambda>q. pin_media q \<noteq> pin_media p) ps))"
    using set_dedupe_spec[of "filter (\<lambda>q. pin_media q \<noteq> pin_media p) ps"] by auto
  with 2 show ?case by simp
qed

lemma subseq_dedupe_spec: "subseq (dedupe_spec pins) pins"
proof (induction pins rule: dedupe_spec.induct)
  case 1
  show ?case by simp
next
  case (2 p ps)
  have "subseq (filter (\<lambda>q. pin_media q \<noteq> pin_media p) ps) ps" by simp
  with 2 have "subseq (dedupe_spec (filter (\<lambda>q. pin_media q \<noteq> pin_media p) ps)) ps"
    by (rule subseq_order.trans)
  then show ?case by simp
qed

lemma find_filter_weaker:
  "(\<And>x. P x \<Longrightarrow> Q x) \<Longrightarrow> find P (filter Q xs) = find P xs"
  by (induction xs) auto

lemma first_occurrence_dedupe_spec:
  "x \<in> set (dedupe_spec pins) \<Longrightarrow> find (\<lambda>q. pin_media q = pin_media x) pins = Some x"
proof (induction pins rule: dedupe_spec.induct)
  case 1
  then show ?case by simp
next
  case (2 p ps)
  show ?case
  proof (cases "x = p")
    case True
    then show ?thesis by simp
  next
    case False
    let ?rest = "filter (\<lambda>q. pin_media q \<noteq> pin_media p) ps"
    from False 2(2) have mem: "x \<in> set (dedupe_spec ?rest)" by simp
    with set_dedupe_spec[of ?rest] have ne: "pin_media x \<noteq> pin_media p" by auto
    from mem have "find (\<lambda>q. pin_media q = pin_media x) ?rest = Some x" by (rule 2(1))
    moreover have "find (\<lambda>q. pin_media q = pin_media x) ?rest = find (\<lambda>q. pin_media q = pin_media x) ps"
      using ne by (intro find_filter_weaker) auto
    ultimately show ?thesis using ne by auto
  qed
qed

text \<open>
  Claim C7. The duplicate-removal loop of \<open>scrape_search\<close> returns the first-occurrence
  deduplication of its input, cut after the entry that makes the output reach \<open>max_pins\<close>
  entries (the cap is tested after each append, so a cap below one stops after the first
  entry). The first-occurrence deduplication has pairwise distinct keys, has the same keys
  as the input, is a subsequence of the input (input order is kept), and each of its
  entries is the first entry of the input with its key.
\<close>

theorem dedupe_keeps_first_occurrences:
  "dedupe_pins max_pins pins = take (nat (max 1 max_pins)) (dedupe_spec pins)
   \<and> distinct (map pin_media (dedupe_spec pins))
   \<and> pin_media ` set (dedupe_spec pins) = pin_media ` set pins
   \<and> subseq (dedupe_spec pins) pins
   \<and> (\<forall>x\<in>set (dedupe_spec pins). find (\<lambda>q. pin_media q = pin_media x) pins = Some x)"
  by (simp add: dedupe_pins_spec distinct_dedupe_spec keys_dedupe_spec subseq_dedupe_spec
      first_occurrence_dedupe_spec)

theorem dedupe_keeps_first_occurrences_witness:
  "dedupe_pins 50 [example_pin ''one'' ''A'', example_pin ''two'' ''B'', example_pin ''three'' ''A'']
     = [example_pin ''one'' ''A'', example_pin ''two'' ''B'']
   \<and> dedupe_pins 1 [example_pin ''one'' ''A'', example_pin ''two'' ''B'', example_pin ''three'' ''A'']
     = [example_pin ''one'' ''A'']
   \<and> example_pin ''one'' ''A''
       \<in> set (dedupe_spec [example_pin ''one'' ''A'', example_pin ''two'' ''B'', example_pin ''three'' ''A''])
   \<and> find (\<lambda>q. pin_media q = pin_media (example_pin ''one'' ''A''))
        [example_pin ''one'' ''A'', example_pin ''two'' ''B'', example_pin ''three'' ''A'']
      = Some (example_pin ''one'' ''A'')"
proof -
  let ?pins = "[example_pin ''one'' ''A'', example_pin ''two'' ''B'', example_pin ''three'' ''A'']"
  have spec: "dedupe_spec ?pins = [example_pin ''one'' ''A'', example_pin ''two'' ''B'']"
    by (simp add: example_pin_def)
  have mem: "example_pin ''one'' ''A'' \<in> set (dedupe_spec ?pins)"
    by (simp add: spec)
  from dedupe_keeps_first_occurrences[of 50 ?pins] spec
  have a: "dedupe_pins 50 ?pins = [example_pin ''one'' ''A'', example_pin ''two'' ''B'']"
    by simp
  from dedupe_keeps_first_occurrences[of 1 ?pins] spec
  have b: "dedupe_pins 1 ?pins = [example_pin ''one'' ''A'']"
    by simp
  from dedupe_keeps_first_occurrences[of 1 ?pins] mem
  have c: "find (\<lambda>q. pin_media q = pin_media (example_pin ''one'' ''A'')) ?pins
      = Some (example_pin ''one'' ''A'')"
    by blast
  from a b mem c show ?thesis by (intro conjI)
qed

lemma unique_data_loop_truthy:
  assumes "unique_data_loop items seen_urls unique_data = Inr out"
    and "\<forall>item\<in>set unique_data. \<exists>url. entry_url item = Inr url \<and> truthy url"
  shows "\<forall>item\<in>set out. \<exists>url. entry_url item = Inr url \<and> truthy url"
  using assms
proof (induction items arbitrary: seen_urls unique_data)
  case Nil
  then show ?case by simp
next
  case (Cons item items)
  show ?case
  proof (cases "entry_url item")
    case (Inl e)
    with Cons.prems show ?thesis by simp
  next
    case (Inr url)
    show ?thesis
    proof (cases "truthy url \<and> hashable url \<and> hash_key url \<notin> seen_urls")
      case True
      with Inr Cons.prems(1)
      have "unique_data_loop items (insert (hash_key url) seen_urls) (unique_data @ [item]) = Inr out"
        by simp
      moreover from True Inr Cons.prems(2)
      have "\<forall>i\<in>set (unique_data @ [item]). \<exists>url. entry_url i = Inr url \<and> truthy url"
        by auto
      ultimately show ?thesis by (rule Cons.IH)
    next
      case False
      with Inr Cons.prems(1)
      have "unique_data_loop items seen_urls unique_data = Inr out"
        by (auto split: if_splits)
      then show ?thesis using Cons.prems(2) by (rule Cons.IH)
    qed
  qed
qed

lemma remove_duplicates_truthy:
  assumes "remove_duplicates data = Inr unique_data"
  shows "\<forall>item\<in>set unique_data. \<exists>url. entry_url item = Inr url \<and> truthy url"
proof -
  from assms obtain items where "unique_data_loop items {} [] = Inr unique_data"
    by (auto simp: remove_duplicates_def split: sum.splits)
  then show ?thesis by (rule unique_data_loop_truthy) simp
qed

lemma extract_pins_valid:
  "p \<in> set (extract_pins page) \<Longrightarrow> is_valid_image_url (PyStr (pin_media p)) = Inr True"
proof (induction page)
  case Nil
  then show ?case by simp
next
  case (Cons r rs)
  then show ?case
    by (auto simp: Let_def make_pin_def split: option.splits if_splits sum.splits bool.splits)
qed

lemma valid_url_nonempty: "is_valid_image_url (PyStr u) = Inr True \<Longrightarrow> u \<noteq> []"
  by auto

lemma scrape_search_subset: "set (scrape_search max_pins page) \<subseteq> set (extract_pins page)"
proof -
  have "set (scrape_search max_pins page) \<subseteq> set (dedupe_spec (extract_pins page))"
    unfolding scrape_search_def dedupe_pins_spec by (rule set_take_subset)
  with set_dedupe_spec show ?thesis by blast
qed

text \<open>
  Claim C8. Deduplication never emits an entry with a falsy or empty media URL: every
  entry that \<open>remove_duplicates\<close> keeps has a truthy URL, and every pin that
  \<open>scrape_search\<close> returns, for every page content and every cap, has a non-empty
  \<open>media\<close>.
\<close>

theorem dedupe_never_emits_empty_key:
  "(\<forall>data unique_data. remove_duplicates data = Inr unique_data
       \<longrightarrow> (\<forall>item\<in>set unique_data. \<exists>url. entry_url item = Inr url \<and> truthy url))
   \<and> (\<forall>max_pins page. \<forall>p\<in>set (scrape_search max_pins page). pin_media p \<noteq> [])"
proof (intro conjI allI impI ballI)
  fix data unique_data item
  assume "remove_duplicates data = Inr unique_data" and "item \<in> set unique_data"
  then show "\<exists>url. entry_url item = Inr url \<and> truthy url"
    using remove_duplicates_truthy by blast
next
  fix max_pins page p
  assume "p \<in> set (scrape_search max_pins page)"
  with scrape_search_subset have "p \<in> set (extract_pins page)" by blast
  then have "is_valid_image_url (PyStr (pin_media p)) = Inr True" by (rule extract_pins_valid)
  then show "pin_media p \<noteq> []" by (rule valid_url_nonempty)
qed

theorem dedupe_never_emits_empty_key_witness:
  "remove_duplicates (PyList [media_entry ''A'', PyDict [(''media'', PyStr '''')], media_entry ''A''])
     = Inr [media_entry ''A'']
   \<and> (\<exists>url. entry_url (media_entry ''A'') = Inr url \<and> truthy url)
   \<and> scrape_search 50 [example_raw ''https://i.pinimg.com/236x/ab/photo.jpg'', example_raw '''']
       = [example_pin ''Aesthetic Pin'' ''https://i.pinimg.com/originals/ab/photo.jpg'']
   \<and> pin_media (example_pin ''Aesthetic Pin'' ''https://i.pinimg.com/originals/ab/photo.jpg'') \<noteq> []"
proof -
  let ?data = "PyList [media_entry ''A'', PyDict [(''media'', PyStr '''')], media_entry ''A'']"
  let ?page = "[example_raw ''https://i.pinimg.com/236x/ab/photo.jpg'', example_raw '''']"
  let ?p = "example_pin ''Aesthetic Pin'' ''https://i.pinimg.com/originals/ab/photo.jpg''"
  have r: "remove_duplicates ?data = Inr [media_entry ''A'']" by code_simp
  have s: "scrape_search 50 ?page = [?p]" by code_simp
  from dedupe_never_emits_empty_key r
  have a: "\<forall>item\<in>set [media_entry ''A'']. \<exists>url. entry_url item = Inr url \<and> truthy url"
    by blast
  from dedupe_never_emits_empty_key
  have "\<forall>p\<in>set (scrape_search 50 ?page). pin_media p \<noteq> []" by blast
  with s have b: "pin_media ?p \<noteq> []" by simp
  from r a s b show ?thesis by simp
qed

section \<open>Properties of the validation engine\<close>

declare run_batches.simps [simp del]
declare split_batches.simps [simp del]

lemma entry_url_dict: "is_dict entry \<Longrightarrow> \<exists>url. entry_url entry = Inr url"
  by (cases entry) (auto simp: entry_url_def)

lemma entry_url_non_dict: "\<not> is_dict entry \<Longrightarrow> entry_url entry = Inl AttributeError"
  by (cases entry) (auto simp: entry_url_def)

lemma create_tasks_dicts:
  "list_all is_dict entries \<Longrightarrow> create_tasks entries tasks = Inr (tasks @ filter has_url entries)"
proof (induction entries arbitrary: tasks)
  case Nil
  show ?case by simp
next
  case (Cons entry entries)
  from Cons.prems obtain url where u: "entry_url entry = Inr url"
    using entry_url_dict by auto
  from Cons.prems have "list_all is_dict entries" by simp
  with Cons.IH u show ?case by (simp add: has_url_def)
qed

lemma create_tasks_non_dict:
  "\<not> list_all is_dict entries \<Longrightarrow> create_tasks entries tasks = Inl AttributeError"
proof (induction entries arbitrary: tasks)
  case Nil
  then show ?case by simp
next
  case (Cons entry entries)
  show ?case
  proof (cases "is_dict entry")
    case True
    then obtain url where u: "entry_url entry = Inr url" using entry_url_dict by auto
    from True Cons.prems have "\<not> list_all is_dict entries" by simp
    with Cons.IH u show ?thesis by simp
  next
    case False
    then show ?thesis by (simp add: entry_url_non_dict)
  qed
qed

lemma validate_entry_dict:
  "is_dict entry \<Longrightarrow> validate_entry s entry = Inr (entry, probe_succeeds s entry)"
  by (cases entry) (auto simp: probe_succeeds_def validate_entry_def entry_url_def)

lemma gather_dicts:
  "list_all is_dict batch \<Longrightarrow> gather s batch = Inr (map (\<lambda>e. (e, probe_succeeds s e)) batch)"
  by (induction batch) (auto simp: validate_entry_dict)

lemma append_valid_filter:
  "append_valid results valid_entries = valid_entries @ map fst (filter snd results)"
  by (induction results valid_entries rule: append_valid.induct) auto

lemma filter_take_drop:
  "filter P (take n (drop i xs)) @ filter P (drop (i + n) xs) = filter P (drop i xs)"
proof -
  have "take n (drop i xs) @ drop n (drop i xs) = drop i xs" by (rule append_take_drop_id)
  then have "filter P (take n (drop i xs) @ drop n (drop i xs)) = filter P (drop i xs)" by simp
  then show ?thesis by (simp add: add.commute)
qed

lemma run_batches_dicts:
  "list_all is_dict tasks \<Longrightarrow>
   run_batches s tasks i valid_entries trace =
     (Inr (valid_entries @ filter (probe_succeeds s) (drop i tasks)),
      trace @ concat (map batch_events (split_batches batch_size (drop i tasks))))"
proof (induction s tasks i valid_entries trace rule: run_batches.induct)
  case (1 s tasks i valid_entries trace)
  show ?case
  proof (cases "i < length tasks")
    case False
    then show ?thesis
      by (simp add: run_batches.simps[of s tasks i] split_batches.simps[of _ "[]"])
  next
    case True
    let ?batch = "take batch_size (drop i tasks)"
    let ?results = "map (\<lambda>e. (e, probe_succeeds s e)) ?batch"
    from "1.prems" have "list_all is_dict ?batch"
      by (auto simp: list_all_iff dest: in_set_takeD in_set_dropD)
    then have g: "gather s ?batch = Inr ?results" by (rule gather_dicts)
    have av: "append_valid ?results valid_entries
        = valid_entries @ filter (probe_succeeds s) ?batch"
      by (simp add: append_valid_filter filter_map comp_def)
    from True have ne: "drop i tasks \<noteq> []" by simp
    have sb: "split_batches batch_size (drop i tasks)
        = ?batch # split_batches batch_size (drop (i + batch_size) tasks)"
      using ne by (subst split_batches.simps) (simp add: batch_size_def add.commute)
    have ih: "run_batches s tasks (i + batch_size) (append_valid ?results valid_entries)
          (trace @ [GatherStart ?batch, GatherDone ?batch, Sleep (1 / 2)])
        = (Inr (append_valid ?results valid_entries
                  @ filter (probe_succeeds s) (drop (i + batch_size) tasks)),
           (trace @ [GatherStart ?batch, GatherDone ?batch, Sleep (1 / 2)])
             @ concat (map batch_events (split_batches batch_size (drop (i + batch_size) tasks))))"
      using True g "1.prems" by (intro "1.IH"[OF True refl g]) 
    have "run_batches s tasks i valid_entries trace
        = run_batches s tasks (i + batch_size) (append_valid ?results valid_entries)
            (trace @ [GatherStart ?batch, GatherDone ?batch, Sleep (1 / 2)])"
      using True g by (subst run_batches.simps) (simp add: Let_def)
    also note ih
    finally show ?thesis
      by (simp add: av sb batch_events_def[of ?batch] filter_take_drop)
  qed
qed

lemma probe_succeeds_has_url: "probe_succeeds s entry \<Longrightarrow> has_url entry"
  by (auto simp: probe_succeeds_def validate_entry_def has_url_def check_url_def
      split: sum.splits if_splits)

lemma filter_probe_has_url:
  "filter (probe_succeeds s) (filter has_url entries) = filter (probe_succeeds s) entries"
  by (induction entries) (auto dest: probe_succeeds_has_url)

lemma validate_cache_dicts:
  assumes "fs cache_file = Some (JSON (PyList entries))" and "list_all is_dict entries"
  shows "validate_cache s fs cache_file =
     (Inr (filter (probe_succeeds s) entries),
      InitSession # concat (map batch_events (split_batches batch_size (filter has_url entries)))
        @ [CloseSession])"
proof -
  from assms(2) have ct: "create_tasks entries [] = Inr (filter has_url entries)"
    by (simp add: create_tasks_dicts)
  from assms(2) have "list_all is_dict (filter has_url entries)"
    by (simp add: list_all_iff)
  then have rb: "run_batches s (filter has_url entries) 0 [] [InitSession]
      = (Inr (filter (probe_succeeds s) entries),
         [InitSession] @ concat (map batch_events (split_batches batch_size (filter has_url entries))))"
    by (simp add: run_batches_dicts filter_probe_has_url del: filter_filter)
  show ?thesis
    unfolding validate_cache_def using assms(1) ct rb by simp
qed

lemma validate_cache_non_dict:
  assumes "fs cache_file = Some (JSON (PyList entries))" and "\<not> list_all is_dict entries"
  shows "validate_cache s fs cache_file = (Inl AttributeError, [InitSession])"
  unfolding validate_cache_def using assms by (simp add: create_tasks_non_dict)















lemma check_url_try_raises:
  "check_url_try s url = Inl e \<Longrightarrow> check_url s (PyStr url) = False"
  by (simp add: check_url_def)

lemma head_failure_raises:
  "head_request s url = Failed e \<Longrightarrow> check_url_try s url = Inl e"
  by (simp add: check_url_try_def)

lemma get_failure_raises:
  assumes "head_request s url = Response status header"
    and "\<not> (status < 400 \<and> sublist ''image'' (content_type header))"
    and "get_request s url = Failed e"
  shows "check_url_try s url = Inl e"
  using assms by (auto simp: check_url_try_def)

lemma validate_cache_missing:
  "fs cache_file = None \<Longrightarrow> validate_cache s fs cache_file = (Inr [], [])"
  by (simp add: validate_cache_def)

lemma validate_cache_unreadable:
  "fs cache_file = Some Unreadable \<Longrightarrow> validate_cache s fs cache_file = (Inl OSError, [])"
  by (simp add: validate_cache_def)

lemma validate_cache_invalid_json:
  "fs cache_file = Some Invalid_JSON \<Longrightarrow>
   validate_cache s fs cache_file = (Inl JSONDecodeError, [])"
  by (simp add: validate_cache_def)

lemma validate_cache_scalar:
  assumes "fs cache_file = Some (JSON v)"
    and "v = PyNone \<or> (\<exists>b. v = PyBool b) \<or> (\<exists>n. v = PyInt n)"
  shows "validate_cache s fs cache_file = (Inl TypeError, [])"
  using assms by (auto simp: validate_cache_def)

lemma validate_cache_not_a_sequence:
  assumes "fs cache_file = Some (JSON v)"
    and "(\<exists>t. v = PyStr t \<and> t \<noteq> []) \<or> (\<exists>kvs. v = PyDict kvs \<and> kvs \<noteq> [])"
  shows "validate_cache s fs cache_file = (Inl AttributeError, [InitSession])"
proof -
  from assms(2) obtain items where it: "py_iter v = Inr items" and nd: "\<not> list_all is_dict items"
    and len: "\<exists>n. py_len v = Inr n"
    by (auto simp: list_all_iff neq_Nil_conv)
  from nd have "create_tasks items [] = Inl AttributeError" by (rule create_tasks_non_dict)
  with assms(1) it len show ?thesis by (auto simp: validate_cache_def)
qed

lemma process_file_raises:
  assumes "fst (validate_cache s fs cache_file) = Inl e"
  shows "process_file s fs cache_file = (Some e, fs)"
proof -
  have "fs cache_file \<noteq> None"
  proof
    assume "fs cache_file = None"
    then have "validate_cache s fs cache_file = (Inr [], [])" by (rule validate_cache_missing)
    with assms show False by simp
  qed
  with assms show ?thesis by (auto simp: process_file_def)
qed

subsection \<open>The run on a console that takes every line\<close>

text \<open>
  On a console that takes every line the run with its prints and the run without them give
  the same result, the same trace and the same file system.
\<close>

declare run_batches_printing.simps [simp del]

lemma print_line_taken: "out line \<Longrightarrow> print_line out line = Inr ()"
  by (simp add: print_line_def)

lemma print_line_refused: "\<not> out line \<Longrightarrow> print_line out line = Inl UnicodeEncodeError"
  by (simp add: print_line_def)

lemma print_line_every: "takes_every_line out \<Longrightarrow> print_line out line = Inr ()"
  by (simp add: takes_every_line_def print_line_def)

lemma print_all_every: "takes_every_line out \<Longrightarrow> print_all out lines = Inr ()"
  by (induction lines) (simp_all add: print_line_every)

lemma print_all_cases:
  "print_all out lines = Inr () \<or> print_all out lines = Inl UnicodeEncodeError"
proof (induction lines)
  case Nil
  show ?case by simp
next
  case (Cons line lines)
  then show ?case by (cases "out line") (auto simp: print_line_def)
qed

lemma check_url_printing_every:
  assumes "takes_every_line out"
  shows "check_url_printing out s url = Inr (check_url s url)"
proof (cases url)
  case (PyStr u)
  show ?thesis
  proof (cases "check_url_try s u")
    case (Inl e)
    with PyStr assms show ?thesis
      by (simp add: check_url_printing_def check_url_def print_line_every)
  next
    case (Inr b)
    with PyStr show ?thesis by (simp add: check_url_printing_def check_url_def)
  qed
qed (simp_all add: check_url_printing_def check_url_def)

lemma validate_entry_printing_every:
  assumes "takes_every_line out"
  shows "validate_entry_printing out s entry = validate_entry s entry"
  by (cases "entry_url entry")
    (simp_all add: validate_entry_printing_def validate_entry_def
      check_url_printing_every[OF assms])

lemma gather_printing_every:
  assumes "takes_every_line out"
  shows "gather_printing out s batch = gather s batch"
  by (induction batch)
    (simp_all add: validate_entry_printing_every[OF assms] split: sum.splits)

lemma report_results_every:
  assumes "takes_every_line out"
  shows "report_results out n_entries results valid_entries
     = Inr (append_valid results valid_entries)"
proof (induction results arbitrary: valid_entries)
  case Nil
  show ?case by simp
next
  case (Cons r results)
  obtain entry is_valid where r: "r = (entry, is_valid)" by (cases r)
  show ?case unfolding r
    by (cases is_valid) (simp_all add: print_line_every[OF assms] Cons.IH)
qed

lemma run_batches_printing_every:
  assumes "takes_every_line out"
  shows "run_batches_printing out s n_entries tasks i valid_entries trace
     = run_batches s tasks i valid_entries trace"
proof (induction s tasks i valid_entries trace rule: run_batches.induct)
  case (1 s tasks i valid_entries trace)
  note g = gather_printing_every[OF assms] and r = report_results_every[OF assms]
  show ?case
  proof (cases "i < length tasks")
    case False
    then show ?thesis
      by (simp add: run_batches_printing.simps[of out s n_entries tasks i]
          run_batches.simps[of s tasks i])
  next
    case True
    let ?batch = "take batch_size (drop i tasks)"
    show ?thesis
    proof (cases "gather s ?batch")
      case (Inl e)
      with True show ?thesis
        by (simp add: run_batches_printing.simps[of out s n_entries tasks i]
            run_batches.simps[of s tasks i] g)
    next
      case (Inr results)
      from "1.IH"[OF True refl Inr]
      have ih: "run_batches_printing out s n_entries tasks (i + batch_size)
            (append_valid results valid_entries)
            (trace @ [GatherStart ?batch, GatherDone ?batch, Sleep (1 / 2)])
          = run_batches s tasks (i + batch_size) (append_valid results valid_entries)
            (trace @ [GatherStart ?batch, GatherDone ?batch, Sleep (1 / 2)])" .
      from True Inr show ?thesis
        by (simp add: run_batches_printing.simps[of out s n_entries tasks i]
            run_batches.simps[of s tasks i] g r ih)
    qed
  qed
qed

lemma validate_cache_printing_every:
  assumes "takes_every_line out"
  shows "validate_cache_printing out s fs cache_file = validate_cache s fs cache_file"
  by (simp add: validate_cache_printing_def validate_cache_def print_all_every[OF assms]
      print_line_every[OF assms] run_batches_printing_every[OF assms]
      split: option.splits file_content.splits sum.splits prod.splits)

lemma process_file_printing_every:
  assumes "takes_every_line out"
  shows "process_file_printing out s fs cache_file = process_file s fs cache_file"
  by (simp add: process_file_printing_def process_file_def print_line_every[OF assms]
      validate_cache_printing_every[OF assms] Let_def split: sum.splits)

lemma main_loop_printing_every:
  assumes "takes_every_line out"
  shows "main_loop_printing out s files fs = main_loop s files fs"
  by (induction files arbitrary: fs)
    (simp_all add: process_file_printing_every[OF assms] split: prod.splits option.splits)

lemma main_printing_every:
  assumes "takes_every_line out"
  shows "main_printing out s fs = main s fs"
  by (simp add: main_printing_def main_def print_all_every[OF assms] print_line_every[OF assms]
      main_loop_printing_every[OF assms] split: prod.splits option.splits)

subsection \<open>Failures of a run\<close>

lemma check_url_printing_failure:
  assumes "check_url_try s url = Inl e" and "out (ProbeFailed (take 80 url) e)"
  shows "check_url_printing out s (PyStr url) = Inr False"
  using assms by (simp add: check_url_printing_def print_line_taken)

lemma check_url_printing_refused:
  assumes "url \<noteq> []" and "check_url_try s url = Inl e"
    and "\<not> out (ProbeFailed (take 80 url) e)"
  shows "check_url_printing out s (PyStr url) = Inl UnicodeEncodeError"
  using assms by (simp add: check_url_printing_def print_line_refused)

lemma validate_cache_printing_missing:
  assumes "takes_every_line out" and "fs cache_file = None"
  shows "validate_cache_printing out s fs cache_file = (Inr [], [])"
  using assms(2) by (simp add: validate_cache_printing_every[OF assms(1)] validate_cache_def)

lemma validate_cache_printing_unreadable:
  assumes "fs cache_file = Some Unreadable \<or> fs cache_file = Some Invalid_JSON"
  shows "\<exists>e. fst (validate_cache_printing out s fs cache_file) = Inl e"
  using assms by (auto simp: validate_cache_printing_def split: sum.splits)

lemma validate_cache_printing_scalar:
  assumes "fs cache_file = Some (JSON v)"
    and "v = PyNone \<or> (\<exists>b. v = PyBool b) \<or> (\<exists>n. v = PyInt n)"
  shows "\<exists>e. fst (validate_cache_printing out s fs cache_file) = Inl e"
  using assms by (auto simp: validate_cache_printing_def split: sum.splits)

lemma validate_cache_printing_items:
  assumes "fs cache_file = Some (JSON v)" and "py_len v = Inr n" and "py_iter v = Inr items"
    and "\<not> list_all is_dict items"
  shows "\<exists>e. fst (validate_cache_printing out s fs cache_file) = Inl e"
proof -
  from assms(4) have "create_tasks items [] = Inl AttributeError"
    by (rule create_tasks_non_dict)
  with assms(1-3) show ?thesis
    by (auto simp: validate_cache_printing_def split: sum.splits)
qed

lemma validate_cache_printing_not_a_sequence:
  assumes "fs cache_file = Some (JSON v)"
    and "(\<exists>t. v = PyStr t \<and> t \<noteq> []) \<or> (\<exists>kvs. v = PyDict kvs \<and> kvs \<noteq> [])"
  shows "\<exists>e. fst (validate_cache_printing out s fs cache_file) = Inl e"
proof -
  from assms(2) obtain items n where "py_iter v = Inr items" and "\<not> list_all is_dict items"
    and "py_len v = Inr n"
    by (auto simp: list_all_iff neq_Nil_conv)
  with assms(1) show ?thesis by (intro validate_cache_printing_items)
qed

lemma validate_cache_printing_non_dict:
  assumes "fs cache_file = Some (JSON (PyList entries))" and "\<not> list_all is_dict entries"
  shows "\<exists>e. fst (validate_cache_printing out s fs cache_file) = Inl e"
proof -
  have "py_len (PyList entries) = Inr (length entries)" and "py_iter (PyList entries) = Inr entries"
    by simp_all
  with assms(1) show ?thesis using assms(2) by (rule validate_cache_printing_items)
qed

lemma validate_cache_printing_dicts:
  assumes "takes_every_line out"
    and "fs cache_file = Some (JSON (PyList entries))" and "list_all is_dict entries"
  shows "fst (validate_cache_printing out s fs cache_file)
     = Inr (filter (probe_succeeds s) entries)"
  using assms(2,3)
  by (simp add: validate_cache_printing_every[OF assms(1)] validate_cache_dicts)

lemma process_file_printing_raises:
  assumes "fs cache_file \<noteq> None"
    and "fst (validate_cache_printing out s fs cache_file) = Inl e"
  shows "process_file_printing out s fs cache_file = (Some e, fs)"
  using assms by (auto simp: process_file_printing_def)

text \<open>
  Claim C1 (amended). The statement is about the run with its console output.
  A transport failure of a probe is caught in \<open>check_url\<close>: when the \<open>try\<close> block raises,
  in particular when the \<open>HEAD\<close> request fails, and the console takes the line that the
  handler prints, \<open>check_url\<close> returns \<open>False\<close>. On a console that takes every line, a
  missing cache file is reported and gives the empty result without an exception. On every
  console the run raises for a file that exists but cannot be opened or decoded, for one
  whose content is \<open>null\<close>, a boolean, a number, a non-empty string or a non-empty object,
  and for one whose content is an array with an element that is not an object. On a console
  that takes every line, the run on an array of objects raises nothing and returns the
  entries whose probe succeeds. Whenever the run on an existing file raises, \<open>main\<close> stops
  with that exception and the file system is unchanged.
\<close>

theorem validation_failure_semantics:
  "(\<forall>out s url e. check_url_try s url = Inl e \<and> out (ProbeFailed (take 80 url) e)
        \<longrightarrow> check_url_printing out s (PyStr url) = Inr False)
   \<and> (\<forall>out s url e. head_request s url = Failed e \<and> out (ProbeFailed (take 80 url) e)
        \<longrightarrow> check_url_printing out s (PyStr url) = Inr False)
   \<and> (\<forall>out s fs cache_file. takes_every_line out \<and> fs cache_file = None
        \<longrightarrow> validate_cache_printing out s fs cache_file = (Inr [], []))
   \<and> (\<forall>out s fs cache_file.
          fs cache_file = Some Unreadable \<or> fs cache_file = Some Invalid_JSON
        \<longrightarrow> (\<exists>e. fst (validate_cache_printing out s fs cache_file) = Inl e))
   \<and> (\<forall>out s fs cache_file v. fs cache_file = Some (JSON v)
          \<and> (v = PyNone \<or> (\<exists>b. v = PyBool b) \<or> (\<exists>n. v = PyInt n))
        \<longrightarrow> (\<exists>e. fst (validate_cache_printing out s fs cache_file) = Inl e))
   \<and> (\<forall>out s fs cache_file v. fs cache_file = Some (JSON v)
          \<and> ((\<exists>t. v = PyStr t \<and> t \<noteq> []) \<or> (\<exists>kvs. v = PyDict kvs \<and> kvs \<noteq> []))
        \<longrightarrow> (\<exists>e. fst (validate_cache_printing out s fs cache_file) = Inl e))
   \<and> (\<forall>out s fs cache_file entries.
          fs cache_file = Some (JSON (PyList entries)) \<and> \<not> list_all is_dict entries
        \<longrightarrow> (\<exists>e. fst (validate_cache_printing out s fs cache_file) = Inl e))
   \<and> (\<forall>out s fs cache_file entries. takes_every_line out
          \<and> fs cache_file = Some (JSON (PyList entries)) \<and> list_all is_dict entries
        \<longrightarrow> fst (validate_cache_printing out s fs cache_file)
              = Inr (filter (probe_succeeds s) entries))
   \<and> (\<forall>out s fs cache_file e. fs cache_file \<noteq> None
          \<and> fst (validate_cache_printing out s fs cache_file) = Inl e
        \<longrightarrow> process_file_printing out s fs cache_file = (Some e, fs)
            \<and> (\<forall>files. main_loop_printing out s (cache_file # files) fs = (Some e, fs)))"
proof (intro conjI allI impI)
  fix out s url e
  assume "check_url_try s url = Inl e \<and> out (ProbeFailed (take 80 url) e)"
  then show "check_url_printing out s (PyStr url) = Inr False"
    by (simp add: check_url_printing_failure)
next
  fix out and s :: session and url e
  assume a: "head_request s url = Failed e \<and> out (ProbeFailed (take 80 url) e)"
  then have "check_url_try s url = Inl e" by (simp add: head_failure_raises)
  with a show "check_url_printing out s (PyStr url) = Inr False"
    by (simp add: check_url_printing_failure)
next
  fix out s and fs :: file_system and cache_file
  assume "takes_every_line out \<and> fs cache_file = None"
  then show "validate_cache_printing out s fs cache_file = (Inr [], [])"
    by (simp add: validate_cache_printing_missing)
next
  fix out s and fs :: file_system and cache_file
  assume "fs cache_file = Some Unreadable \<or> fs cache_file = Some Invalid_JSON"
  then show "\<exists>e. fst (validate_cache_printing out s fs cache_file) = Inl e"
    by (rule validate_cache_printing_unreadable)
next
  fix out s and fs :: file_system and cache_file v
  assume "fs cache_file = Some (JSON v)
    \<and> (v = PyNone \<or> (\<exists>b. v = PyBool b) \<or> (\<exists>n. v = PyInt n))"
  then show "\<exists>e. fst (validate_cache_printing out s fs cache_file) = Inl e"
    using validate_cache_printing_scalar by blast
next
  fix out s and fs :: file_system and cache_file v
  assume "fs cache_file = Some (JSON v)
    \<and> ((\<exists>t. v = PyStr t \<and> t \<noteq> []) \<or> (\<exists>kvs. v = PyDict kvs \<and> kvs \<noteq> []))"
  then show "\<exists>e. fst (validate_cache_printing out s fs cache_file) = Inl e"
    using validate_cache_printing_not_a_sequence by blast
next
  fix out s and fs :: file_system and cache_file entries
  assume "fs cache_file = Some (JSON (PyList entries)) \<and> \<not> list_all is_dict entries"
  then show "\<exists>e. fst (validate_cache_printing out s fs cache_file) = Inl e"
    using validate_cache_printing_non_dict by blast
next
  fix out s and fs :: file_system and cache_file entries
  assume "takes_every_line out
    \<and> fs cache_file = Some (JSON (PyList entries)) \<and> list_all is_dict entries"
  then show "fst (validate_cache_printing out s fs cache_file)
      = Inr (filter (probe_succeeds s) entries)"
    by (simp add: validate_cache_printing_dicts)
next
  fix out s and fs :: file_system and cache_file e
  assume "fs cache_file \<noteq> None \<and> fst (validate_cache_printing out s fs cache_file) = Inl e"
  then show "process_file_printing out s fs cache_file = (Some e, fs)"
    by (simp add: process_file_printing_raises)
next
  fix out s and fs :: file_system and cache_file e files
  assume "fs cache_file \<noteq> None \<and> fst (validate_cache_printing out s fs cache_file) = Inl e"
  then have "process_file_printing out s fs cache_file = (Some e, fs)"
    by (simp add: process_file_printing_raises)
  then show "main_loop_printing out s (cache_file # files) fs = (Some e, fs)" by simp
qed

theorem validation_failure_semantics_witness:
  "check_url_try example_session ''https://i.pinimg.com/dead.jpg'' = Inl Timeout
   \<and> head_request example_session ''https://i.pinimg.com/dead.jpg'' = Failed Timeout
   \<and> utf8_console (ProbeFailed (take 80 ''https://i.pinimg.com/dead.jpg'') Timeout)
   \<and> check_url_printing utf8_console example_session (PyStr ''https://i.pinimg.com/dead.jpg'')
       = Inr False
   \<and> takes_every_line utf8_console
   \<and> (Map.empty :: file_system) ''pinterest_cache.json'' = None
   \<and> validate_cache_printing utf8_console example_session Map.empty ''pinterest_cache.json''
       = (Inr [], [])
   \<and> [''pinterest_cache.json'' \<mapsto> Invalid_JSON] ''pinterest_cache.json'' = Some Invalid_JSON
   \<and> (\<exists>e. fst (validate_cache_printing utf8_console example_session
         [''pinterest_cache.json'' \<mapsto> Invalid_JSON] ''pinterest_cache.json'') = Inl e)
   \<and> example_cache PyNone ''pinterest_cache.json'' = Some (JSON PyNone)
   \<and> (\<exists>e. fst (validate_cache_printing utf8_console example_session (example_cache PyNone)
         ''pinterest_cache.json'') = Inl e)
   \<and> (\<exists>e. fst (validate_cache_printing utf8_console example_session
         (example_cache (PyDict [(''pins'', PyList [])])) ''pinterest_cache.json'') = Inl e)
   \<and> example_cache (PyList [PyInt 5]) ''pinterest_cache.json'' = Some (JSON (PyList [PyInt 5]))
   \<and> \<not> list_all is_dict [PyInt 5]
   \<and> fst (validate_cache_printing utf8_console example_session
         (example_cache (PyList [PyInt 5])) ''pinterest_cache.json'') = Inl AttributeError
   \<and> process_file_printing utf8_console example_session (example_cache (PyList [PyInt 5]))
         ''pinterest_cache.json''
       = (Some AttributeError, example_cache (PyList [PyInt 5]))
   \<and> main_loop_printing utf8_console example_session FILES_TO_VALIDATE
         (example_cache (PyList [PyInt 5]))
       = (Some AttributeError, example_cache (PyList [PyInt 5]))
   \<and> list_all is_dict [media_entry ''https://i.pinimg.com/dead.jpg'']
   \<and> fst (validate_cache_printing utf8_console example_session
         (example_cache (PyList [media_entry ''https://i.pinimg.com/dead.jpg'']))
         ''pinterest_cache.json'') = Inr []"
proof -
  note T = validation_failure_semantics
  note T1 = T[THEN conjunct1, rule_format]
  note T2 = T[THEN conjunct2, THEN conjunct1, rule_format]
  note T3 = T[THEN conjunct2, THEN conjunct2, THEN conjunct1, rule_format]
  note T4 = T[THEN conjunct2, THEN conjunct2, THEN conjunct2, THEN conjunct1, rule_format]
  note T5 = T[THEN conjunct2, THEN conjunct2, THEN conjunct2, THEN conjunct2, THEN conjunct1,
      rule_format]
  note T6 = T[THEN conjunct2, THEN conjunct2, THEN conjunct2, THEN conjunct2, THEN conjunct2,
      THEN conjunct1, rule_format]
  note T7 = T[THEN conjunct2, THEN conjunct2, THEN conjunct2, THEN conjunct2, THEN conjunct2,
      THEN conjunct2, THEN conjunct1, rule_format]
  note T8 = T[THEN conjunct2, THEN conjunct2, THEN conjunct2, THEN conjunct2, THEN conjunct2,
      THEN conjunct2, THEN conjunct2, THEN conjunct1, rule_format]
  note T9 = T[THEN conjunct2, THEN conjunct2, THEN conjunct2, THEN conjunct2, THEN conjunct2,
      THEN conjunct2, THEN conjunct2, THEN conjunct2, rule_format]
  let ?f = "''pinterest_cache.json''"
  let ?s = example_session
  let ?out = utf8_console
  let ?u = "''https://i.pinimg.com/dead.jpg''"
  have h1: "check_url_try ?s ?u = Inl Timeout" by code_simp
  have h2: "head_request ?s ?u = Failed Timeout" by code_simp
  have h3: "?out (ProbeFailed (take 80 ?u) Timeout)" by (simp add: utf8_console_def)
  from h1 h3 have "check_url_try ?s ?u = Inl Timeout \<and> ?out (ProbeFailed (take 80 ?u) Timeout)"
    by (rule conjI)
  then have c1: "check_url_printing ?out ?s (PyStr ?u) = Inr False" by (rule T1)
  from h2 h3 have "head_request ?s ?u = Failed Timeout \<and> ?out (ProbeFailed (take 80 ?u) Timeout)"
    by (rule conjI)
  then have c2: "check_url_printing ?out ?s (PyStr ?u) = Inr False" by (rule T2)
  have every: "takes_every_line ?out" by (simp add: takes_every_line_def utf8_console_def)
  have h4: "(Map.empty :: file_system) ?f = None" by simp
  from every h4 have "takes_every_line ?out \<and> (Map.empty :: file_system) ?f = None"
    by (rule conjI)
  then have c3: "validate_cache_printing ?out ?s Map.empty ?f = (Inr [], [])" by (rule T3)
  have h5: "[?f \<mapsto> Invalid_JSON] ?f = Some Invalid_JSON" by simp
  then have "[?f \<mapsto> Invalid_JSON] ?f = Some Unreadable
      \<or> [?f \<mapsto> Invalid_JSON] ?f = Some Invalid_JSON"
    by (rule disjI2)
  then have c4: "\<exists>e. fst (validate_cache_printing ?out ?s [?f \<mapsto> Invalid_JSON] ?f) = Inl e"
    by (rule T4)
  have h6: "example_cache PyNone ?f = Some (JSON PyNone)" by (simp add: example_cache_def)
  then have "example_cache PyNone ?f = Some (JSON PyNone)
      \<and> (PyNone = PyNone \<or> (\<exists>b. PyNone = PyBool b) \<or> (\<exists>n. PyNone = PyInt n))"
    by simp
  then have c5: "\<exists>e. fst (validate_cache_printing ?out ?s (example_cache PyNone) ?f) = Inl e"
    by (rule T5)
  let ?obj = "PyDict [(''pins'', PyList [])]"
  have "example_cache ?obj ?f = Some (JSON ?obj)
      \<and> ((\<exists>t. ?obj = PyStr t \<and> t \<noteq> []) \<or> (\<exists>kvs. ?obj = PyDict kvs \<and> kvs \<noteq> []))"
    by (simp add: example_cache_def)
  then have c6: "\<exists>e. fst (validate_cache_printing ?out ?s (example_cache ?obj) ?f) = Inl e"
    by (rule T6)
  have h7: "example_cache (PyList [PyInt 5]) ?f = Some (JSON (PyList [PyInt 5]))"
    by (simp add: example_cache_def)
  have h8: "\<not> list_all is_dict [PyInt 5]" by simp
  from h7 h8 have "example_cache (PyList [PyInt 5]) ?f = Some (JSON (PyList [PyInt 5]))
      \<and> \<not> list_all is_dict [PyInt 5]"
    by (rule conjI)
  then have "\<exists>e. fst (validate_cache_printing ?out ?s (example_cache (PyList [PyInt 5])) ?f)
      = Inl e"
    by (rule T7[where entries = "[PyInt 5]"])
  have c7: "fst (validate_cache_printing ?out ?s (example_cache (PyList [PyInt 5])) ?f)
      = Inl AttributeError"
    by (simp add: validate_cache_printing_def example_cache_def entry_url_def print_line_def
        utf8_console_def)
  from h7 have "example_cache (PyList [PyInt 5]) ?f \<noteq> None" by simp
  with c7 have "example_cache (PyList [PyInt 5]) ?f \<noteq> None
      \<and> fst (validate_cache_printing ?out ?s (example_cache (PyList [PyInt 5])) ?f)
          = Inl AttributeError"
    by simp
  then have c8': "process_file_printing ?out ?s (example_cache (PyList [PyInt 5])) ?f
        = (Some AttributeError, example_cache (PyList [PyInt 5]))
      \<and> (\<forall>files. main_loop_printing ?out ?s (?f # files) (example_cache (PyList [PyInt 5]))
            = (Some AttributeError, example_cache (PyList [PyInt 5])))"
    by (rule T9)
  then have c8: "process_file_printing ?out ?s (example_cache (PyList [PyInt 5])) ?f
      = (Some AttributeError, example_cache (PyList [PyInt 5]))"
    by (rule conjunct1)
  from c8' have "main_loop_printing ?out ?s (?f # [''extension/data/pinterest_cache.json''])
        (example_cache (PyList [PyInt 5]))
      = (Some AttributeError, example_cache (PyList [PyInt 5]))"
    by (rule conjunct2[THEN spec])
  then have c8m: "main_loop_printing ?out ?s FILES_TO_VALIDATE (example_cache (PyList [PyInt 5]))
      = (Some AttributeError, example_cache (PyList [PyInt 5]))"
    by (simp only: FILES_TO_VALIDATE_def)
  let ?es = "[media_entry ''https://i.pinimg.com/dead.jpg'']"
  have h9: "example_cache (PyList ?es) ?f = Some (JSON (PyList ?es))"
    by (simp add: example_cache_def)
  have h10: "list_all is_dict ?es" by (simp add: media_entry_def)
  have p: "filter (probe_succeeds ?s) ?es = []" by code_simp
  from every h9 h10 have "takes_every_line ?out
      \<and> example_cache (PyList ?es) ?f = Some (JSON (PyList ?es)) \<and> list_all is_dict ?es"
    by simp
  then have "fst (validate_cache_printing ?out ?s (example_cache (PyList ?es)) ?f)
      = Inr (filter (probe_succeeds ?s) ?es)"
    by (rule T8[where entries = ?es])
  then have c9: "fst (validate_cache_printing ?out ?s (example_cache (PyList ?es)) ?f) = Inr []"
    by (simp only: p)
  from h1 h2 h3 c1 every h4 c3 h5 c4 h6 c5 c6 h7 h8 c7 c8 c8m h10 c9 show ?thesis
    by (intro conjI)
qed

text \<open>
  The case that the amended claim leaves out: the handler of \<open>check_url\<close> prints before it
  returns, and on a console that refuses the line the \<open>print\<close> raises inside the handler,
  so the exception of the \<open>print\<close> leaves \<open>check_url\<close> and, through \<open>gather\<close>, the
  run. The loop over the results of a batch prints a mark for every result, so on a console
  that cannot encode the marks a run with one probed entry raises whatever the probe gave.
\<close>

lemma check_url_printing_refused_example:
  "check_url_try example_session ''https://i.pinimg.com/dead.jpg'' = Inl Timeout
   \<and> check_url_printing ascii_console example_session (PyStr ''https://i.pinimg.com/dead.jpg'')
       = Inl UnicodeEncodeError
   \<and> validate_cache_printing ascii_console example_session
         (example_cache (PyList [media_entry ''https://i.pinimg.com/dead.jpg'']))
         ''pinterest_cache.json''
       = (Inl UnicodeEncodeError,
          [InitSession, GatherStart [media_entry ''https://i.pinimg.com/dead.jpg'']])
   \<and> validate_cache_printing ascii_console example_session
         (example_cache (PyList [media_entry ''https://i.pinimg.com/originals/a.jpg'']))
         ''pinterest_cache.json''
       = (Inl UnicodeEncodeError,
          [InitSession, GatherStart [media_entry ''https://i.pinimg.com/originals/a.jpg''],
           GatherDone [media_entry ''https://i.pinimg.com/originals/a.jpg'']])"
  by code_simp

text \<open>
  Claim C1 as stated fails for a cache file that cannot be read because it does not exist:
  \<open>validate_cache\<close> tests for the file first and returns the empty list.
\<close>

theorem missing_cache_file_does_not_raise:
  "(Map.empty :: file_system) ''pinterest_cache.json'' = None
   \<and> validate_cache dead_session Map.empty ''pinterest_cache.json'' = (Inr [], [])
   \<and> process_file dead_session Map.empty ''pinterest_cache.json'' = (None, Map.empty)"
  by (simp add: validate_cache_def process_file_def)

text \<open>
  Claim C9. The session is closed only at the end of a run that raises nothing:
  \<open>validate_cache\<close> has no \<open>finally\<close>. A cache file whose array holds a non-object
  makes the task-creating loop raise \<open>AttributeError\<close> after \<open>init_session\<close>, and the
  run ends with the session open.
\<close>

theorem session_left_open_on_malformed_entry:
  "validate_cache example_session
      (example_cache (PyList [media_entry ''https://i.pinimg.com/originals/a.jpg'', PyInt 5]))
      ''pinterest_cache.json''
     = (Inl AttributeError, [InitSession])
   \<and> session_open [InitSession]"
  by (simp add: validate_cache_def example_cache_def media_entry_def entry_url_def
      session_open_def)

end
